theory Spec2Isabelle
  imports Main "HOL-Library.AList"
begin

section \<open>Python values, exceptions and outcomes\<close>

text \<open>
  The values of an environment are what \<^verbatim>\<open>json.load\<close> and the table
  \<^verbatim>\<open>DEPENDENCY_TYPES\<close> can hold: strings, lists, mappings with string keys,
  booleans, integers and \<^verbatim>\<open>None\<close>. Strings are byte strings (Python 2
  \<^verbatim>\<open>str\<close>); floating point numbers are left out.
\<close>

datatype pyval =
    VStr string
  | VList "pyval list"
  | VDict "(string \<times> pyval) list"
  | VBool bool
  | VNum int
  | VNone

text \<open>The exceptions that the modelled code raises, one constructor per raise site or class.\<close>

datatype error =
    KeyError_undefined string      \<comment> \<open>\<^verbatim>\<open>KeyError("Key undefined:", key)\<close> in \<^verbatim>\<open>_expand\<close>\<close>
  | ValueError_recursive string    \<comment> \<open>\<^verbatim>\<open>ValueError("Recursive expansion for key:", key)\<close>\<close>
  | ValueError_conditional         \<comment> \<open>\<^verbatim>\<open>ValueError('conditional must be of form ...')\<close>\<close>
  | ValueError_no_name             \<comment> \<open>\<^verbatim>\<open>ValueError('Dependency definition contains no name')\<close>\<close>
  | KeyError pyval                 \<comment> \<open>a dict subscript with a missing key\<close>
  | TypeError                      \<comment> \<open>an operand of the wrong type, or an unhashable dict key\<close>
  | AttributeError                 \<comment> \<open>a missing attribute or method\<close>
  | IOError                        \<comment> \<open>\<^verbatim>\<open>IOError\<close> and its subclasses\<close>
  | OSError                        \<comment> \<open>\<^verbatim>\<open>OSError\<close> and its subclasses\<close>
  | OtherError string              \<comment> \<open>any other exception, with its message\<close>

text \<open>
  A call returns a value, raises, or (in the fuel-indexed resolver only) runs out of fuel.
\<close>

datatype 'a outcome = Return 'a | Raise error | NoFuel

fun is_KeyError :: "error \<Rightarrow> bool" where
  "is_KeyError (KeyError_undefined k) = True"
| "is_KeyError (KeyError v) = True"
| "is_KeyError e = False"

section \<open>String helpers\<close>

text \<open>\<^verbatim>\<open>str.strip()\<close> removes the six ASCII whitespace characters at both ends.\<close>

definition is_space :: "char \<Rightarrow> bool" where
  "is_space c = (c \<in> set [CHR '' '', CHR 0x09, CHR 0x0A, CHR 0x0B, CHR 0x0C, CHR 0x0D])"

definition strip :: "string \<Rightarrow> string" where
  "strip s = rev (dropWhile is_space (rev (dropWhile is_space s)))"

text \<open>
  \<^verbatim>\<open>s.split(d, 1)\<close> for a string that contains \<open>d\<close>: the part before the first
  \<open>d\<close> and the part after it.
\<close>

definition split_once :: "char \<Rightarrow> string \<Rightarrow> string \<times> string" where
  "split_once d s = (takeWhile (\<lambda>c. c \<noteq> d) s, tl (dropWhile (\<lambda>c. c \<noteq> d) s))"

definition upper_char :: "char \<Rightarrow> char" where
  "upper_char c =
     (case map_of (zip ''abcdefghijklmnopqrstuvwxyz'' ''ABCDEFGHIJKLMNOPQRSTUVWXYZ'') c of
        Some u \<Rightarrow> u
      | None \<Rightarrow> c)"

definition upper :: "string \<Rightarrow> string" where
  "upper s = map upper_char s"

section \<open>Truthiness of a condition\<close>

text \<open>
  Python's \<^verbatim>\<open>==\<close> where at least one operand is a scalar: booleans are the
  integers 0 and 1, and values of different kinds are unequal.
\<close>

fun num_of :: "pyval \<Rightarrow> int option" where
  "num_of (VNum n) = Some n"
| "num_of (VBool b) = Some (if b then 1 else 0)"
| "num_of v = None"

definition py_eq :: "pyval \<Rightarrow> pyval \<Rightarrow> bool" where
  "py_eq a b =
     (case (num_of a, num_of b) of
        (Some x, Some y) \<Rightarrow> x = y
      | (None, None) \<Rightarrow> a = b
      | _ \<Rightarrow> False)"

text \<open>
  \<^verbatim>\<open>
  def is_trueish(value):
      if hasattr(value, "upper"):
          value = value.upper()
      return value in [1, "1", "YES", "Y", "TRUE", "ON", True]
  \<close>
\<close>

definition is_trueish :: "pyval \<Rightarrow> bool" where
  "is_trueish v =
     (let value = (case v of VStr s \<Rightarrow> VStr (upper s) | _ \<Rightarrow> v)
      in list_ex (py_eq value)
           [VNum 1, VStr ''1'', VStr ''YES'', VStr ''Y'', VStr ''TRUE'', VStr ''ON'', VBool True])"

section \<open>The template scanner\<close>

text \<open>
  \<^verbatim>\<open>template_regex\<close> has three alternatives, tried at each position from left to
  right: \<^verbatim>\<open>\$\$\<close>, \<^verbatim>\<open>\$[a-zA-Z_][a-zA-Z_0-9]*\<close> and
  \<^verbatim>\<open>\$\{[^}]*\}\<close>. \<^verbatim>\<open>re.sub\<close> hands every match to the callback and copies
  the text between matches. A token is one match or one copied character.
\<close>

datatype regex_match =
    Dollar           \<comment> \<open>group \<^verbatim>\<open>dollar\<close>\<close>
  | Word string      \<comment> \<open>group \<^verbatim>\<open>word\<close>: the identifier after the dollar sign\<close>
  | Parens string    \<comment> \<open>group \<^verbatim>\<open>parens\<close>: the text between the braces\<close>

datatype token = Text string | Match regex_match

definition is_ident_start :: "char \<Rightarrow> bool" where
  "is_ident_start c =
     (c \<in> set ''abcdefghijklmnopqrstuvwxyzABCDEFGHIJKLMNOPQRSTUVWXYZ_'')"

definition is_ident_char :: "char \<Rightarrow> bool" where
  "is_ident_char c = (is_ident_start c \<or> c \<in> set ''0123456789'')"

function tokenize :: "string \<Rightarrow> token list" where
  "tokenize [] = []"
| "tokenize (c # cs) =
     (if c = CHR ''$'' then
        (case cs of
           [] \<Rightarrow> [Text [c]]
         | d # ds \<Rightarrow>
             if d = CHR ''$'' then Match Dollar # tokenize ds
             else if is_ident_start d then
               Match (Word (d # takeWhile is_ident_char ds)) # tokenize (dropWhile is_ident_char ds)
             else if d = CHR ''{'' \<and> CHR ''}'' \<in> set ds then
               Match (Parens (takeWhile (\<lambda>x. x \<noteq> CHR ''}'') ds))
                 # tokenize (tl (dropWhile (\<lambda>x. x \<noteq> CHR ''}'') ds))
             else Text [c] # tokenize cs)
      else Text [c] # tokenize cs)"
  by pat_completeness auto
termination
proof (relation "measure length")
  show "wf (measure length)" by simp
next
  fix c :: char and cs :: string and d ds
  assume "cs = d # ds"
  then show "(ds, c # cs) \<in> measure length" by simp
next
  fix c :: char and cs :: string and d ds
  assume "cs = d # ds"
  moreover have "length (dropWhile is_ident_char ds) \<le> length ds"
    by (rule length_dropWhile_le)
  ultimately show "(dropWhile is_ident_char ds, c # cs) \<in> measure length" by simp
next
  fix c :: char and cs :: string and d ds
  assume "cs = d # ds"
  moreover have "length (dropWhile (\<lambda>x. x \<noteq> CHR ''}'') ds) \<le> length ds"
    by (rule length_dropWhile_le)
  ultimately show "(tl (dropWhile (\<lambda>x. x \<noteq> CHR ''}'') ds), c # cs) \<in> measure length"
    by simp
next
  fix c :: char and cs :: string
  show "(cs, c # cs) \<in> measure length" by simp
next
  fix c :: char and cs :: string
  show "(cs, c # cs) \<in> measure length" by simp
qed

text \<open>
  \<^verbatim>\<open>re.sub\<close> joins the copied text and the callback's results: a result
  \<^verbatim>\<open>None\<close> is left out, a string is appended, anything else is a
  \<^verbatim>\<open>TypeError\<close> of the join.
\<close>

fun join_pieces :: "pyval list \<Rightarrow> error + string" where
  "join_pieces [] = Inr []"
| "join_pieces (VStr s # vs) =
     (case join_pieces vs of Inl e \<Rightarrow> Inl e | Inr r \<Rightarrow> Inr (s @ r))"
| "join_pieces (VNone # vs) = join_pieces vs"
| "join_pieces (v # vs) = Inl TypeError"

section \<open>EnvironmentExpander\<close>

text \<open>
  The expander's fields. \<open>env_dict\<close> is an association list read with \<^const>\<open>map_of\<close>.
\<close>

record expander =
  env_dict :: "(string \<times> pyval) list"
  cache :: "string \<rightharpoonup> pyval"
  expandset :: "string set"

definition new_expander :: "(string \<times> pyval) list \<Rightarrow> expander" where
  "new_expander env = \<lparr>env_dict = env, cache = Map.empty, expandset = {}\<rparr>"

type_synonym expandfn = "string \<Rightarrow> expander \<Rightarrow> pyval outcome \<times> expander"

text \<open>
  The methods below call \<^verbatim>\<open>self.expand\<close>; the model passes it as the argument
  \<open>ex\<close>, so that the recursion through \<open>expand\<close> is a recursion on its fuel alone.

  \<^verbatim>\<open>
  def expandconditional(self, key):
      if '?' not in key: raise ValueError(...)
      condition, rest = key.split('?', 1)
      if ':' not in rest: raise ValueError(...)
      primary, alternative = rest.split(':', 1)
      condition, primary, alternative = [x.strip() for x in [condition, primary, alternative]]
      try:
          conditionvalue = self.expand(condition)
      except KeyError:
          conditionvalue = False
      if is_trueish(conditionvalue):
          return self.expand(primary)
      return self.expand(alternative)
  \<close>
\<close>

definition expandconditional :: "expandfn \<Rightarrow> string \<Rightarrow> expander \<Rightarrow> pyval outcome \<times> expander" where
  "expandconditional ex key st =
     (if CHR ''?'' \<notin> set key then (Raise ValueError_conditional, st)
      else
        let (condition, rest) = split_once (CHR ''?'') key in
        if CHR '':'' \<notin> set rest then (Raise ValueError_conditional, st)
        else
          let (primary, alternative) = split_once (CHR '':'') rest;
              condition = strip condition;
              primary = strip primary;
              alternative = strip alternative
          in case ex condition st of
               (NoFuel, st1) \<Rightarrow> (NoFuel, st1)
             | (Raise e, st1) \<Rightarrow>
                 if is_KeyError e
                 then (if is_trueish (VBool False) then ex primary st1 else ex alternative st1)
                 else (Raise e, st1)
             | (Return conditionvalue, st1) \<Rightarrow>
                 if is_trueish conditionvalue then ex primary st1 else ex alternative st1)"

text \<open>
  \<^verbatim>\<open>
  def replacematch(self, match):
      if match.group('dollar'): return '$'
      key = None
      if match.group('word'): key = match.group('word')[1:]
      if match.group('parens'): key = match.group('parens')[2:-1]
      assert key is not None
      key = key.strip()
      if '?' in key: return self.expandconditional(key)
      return self.expand(key)
  \<close>
\<close>

fun replacematch :: "expandfn \<Rightarrow> regex_match \<Rightarrow> expander \<Rightarrow> pyval outcome \<times> expander" where
  "replacematch ex Dollar st = (Return (VStr ''$''), st)"
| "replacematch ex (Word w) st =
     (let key = strip w
      in if CHR ''?'' \<in> set key then expandconditional ex key st else ex key st)"
| "replacematch ex (Parens p) st =
     (let key = strip p
      in if CHR ''?'' \<in> set key then expandconditional ex key st else ex key st)"

text \<open>
  The loop of \<^verbatim>\<open>re.sub\<close> over the tokens, left to right: copied text is kept,
  a match is handed to \<^verbatim>\<open>replacematch\<close>.
\<close>

fun sub :: "expandfn \<Rightarrow> token list \<Rightarrow> expander \<Rightarrow> pyval list outcome \<times> expander" where
  "sub ex [] st = (Return [], st)"
| "sub ex (Text s # ts) st =
     (case sub ex ts st of
        (NoFuel, st1) \<Rightarrow> (NoFuel, st1)
      | (Raise e, st1) \<Rightarrow> (Raise e, st1)
      | (Return vs, st1) \<Rightarrow> (Return (VStr s # vs), st1))"
| "sub ex (Match m # ts) st =
     (case replacematch ex m st of
        (NoFuel, st1) \<Rightarrow> (NoFuel, st1)
      | (Raise e, st1) \<Rightarrow> (Raise e, st1)
      | (Return v, st1) \<Rightarrow>
          (case sub ex ts st1 of
             (NoFuel, st2) \<Rightarrow> (NoFuel, st2)
           | (Raise e, st2) \<Rightarrow> (Raise e, st2)
           | (Return vs, st2) \<Rightarrow> (Return (v # vs), st2)))"

text \<open>
  \<^verbatim>\<open>
  def _expandvalue(self, value):
      if isinstance(value, (str, unicode)):
          return self.template_regex.sub(self.replacematch, value)
      elif isinstance(value, (list, tuple)):
          return [self._expandvalue(x) for x in value]
      elif isinstance(value, dict):
          return dict((k, self.expandvalue(v)) for (k,v) in value.items())
      return value
  \<close>
  The mapping branch calls \<^verbatim>\<open>self.expandvalue\<close>, an attribute the class does not
  have: the generator raises \<^verbatim>\<open>AttributeError\<close> at the first item, and only an
  empty mapping is returned (as a new empty mapping).
\<close>

fun private_expandvalue :: "expandfn \<Rightarrow> pyval \<Rightarrow> expander \<Rightarrow> pyval outcome \<times> expander"
  and private_expandvalues :: "expandfn \<Rightarrow> pyval list \<Rightarrow> expander \<Rightarrow> pyval list outcome \<times> expander"
where
  "private_expandvalue ex (VStr s) st =
     (case sub ex (tokenize s) st of
        (NoFuel, st1) \<Rightarrow> (NoFuel, st1)
      | (Raise e, st1) \<Rightarrow> (Raise e, st1)
      | (Return pieces, st1) \<Rightarrow>
          (case join_pieces pieces of
             Inl e \<Rightarrow> (Raise e, st1)
           | Inr r \<Rightarrow> (Return (VStr r), st1)))"
| "private_expandvalue ex (VList xs) st =
     (case private_expandvalues ex xs st of
        (NoFuel, st1) \<Rightarrow> (NoFuel, st1)
      | (Raise e, st1) \<Rightarrow> (Raise e, st1)
      | (Return ys, st1) \<Rightarrow> (Return (VList ys), st1))"
| "private_expandvalue ex (VDict kvs) st =
     (if kvs = [] then (Return (VDict []), st) else (Raise AttributeError, st))"
| "private_expandvalue ex (VBool b) st = (Return (VBool b), st)"
| "private_expandvalue ex (VNum n) st = (Return (VNum n), st)"
| "private_expandvalue ex VNone st = (Return VNone, st)"
| "private_expandvalues ex [] st = (Return [], st)"
| "private_expandvalues ex (x # xs) st =
     (case private_expandvalue ex x st of
        (NoFuel, st1) \<Rightarrow> (NoFuel, st1)
      | (Raise e, st1) \<Rightarrow> (Raise e, st1)
      | (Return y, st1) \<Rightarrow>
          (case private_expandvalues ex xs st1 of
             (NoFuel, st2) \<Rightarrow> (NoFuel, st2)
           | (Raise e, st2) \<Rightarrow> (Raise e, st2)
           | (Return ys, st2) \<Rightarrow> (Return (y # ys), st2)))"

text \<open>
  \<^verbatim>\<open>
  def _expand(self, key):
      if key not in self.env_dict:
          raise KeyError("Key undefined:", key)
      value = self.env_dict[key]
      return self._expandvalue(value)
  \<close>
\<close>

definition private_expand :: "expandfn \<Rightarrow> string \<Rightarrow> expander \<Rightarrow> pyval outcome \<times> expander" where
  "private_expand ex key st =
     (case map_of (env_dict st) key of
        None \<Rightarrow> (Raise (KeyError_undefined key), st)
      | Some v \<Rightarrow> private_expandvalue ex v st)"

text \<open>
  \<^verbatim>\<open>
  def expand(self, key):
      if key in self.cache:
          return self.cache[key]
      if key in self.expandset:
          raise ValueError("Recursive expansion for key:", key)
      self.expandset.add(key)
      result = self._expand(key)
      self.cache[key] = result
      self.expandset.remove(key)
      return result
  \<close>
  The fuel bounds the nesting depth of \<^verbatim>\<open>expand\<close> calls: a call with fuel
  \<open>Suc n\<close> gives its nested calls fuel \<open>n\<close>. An exception of \<^verbatim>\<open>_expand\<close>
  leaves the method before the last three statements.
\<close>

primrec expand :: "nat \<Rightarrow> string \<Rightarrow> expander \<Rightarrow> pyval outcome \<times> expander" where
  "expand 0 key st = (NoFuel, st)"
| "expand (Suc n) key st =
     (case cache st key of
        Some v \<Rightarrow> (Return v, st)
      | None \<Rightarrow>
          if key \<in> expandset st then (Raise (ValueError_recursive key), st)
          else
            (case private_expand (expand n) key (st\<lparr>expandset := insert key (expandset st)\<rparr>) of
               (NoFuel, st1) \<Rightarrow> (NoFuel, st1)
             | (Raise e, st1) \<Rightarrow> (Raise e, st1)
             | (Return result, st1) \<Rightarrow>
                 (Return result,
                  st1\<lparr>cache := (cache st1)(key \<mapsto> result),
                      expandset := expandset st1 - {key}\<rparr>)))"

text \<open>
  The resolver as the program runs it: \<open>expand\<close> with more fuel than the environment
  has keys, which is enough for every call (\<open>resolve_returns_or_raises\<close> below).
\<close>

definition resolve :: "string \<Rightarrow> expander \<Rightarrow> pyval outcome \<times> expander" where
  "resolve key st = expand (Suc (length (env_dict st))) key st"

section \<open>Dependency types and DependencyCollection.create_dependency\<close>

text \<open>The truth value of a Python value, as \<^verbatim>\<open>if env['ignore']\<close> takes it.\<close>

fun py_bool :: "pyval \<Rightarrow> bool" where
  "py_bool (VStr s) = (s \<noteq> [])"
| "py_bool (VList xs) = (xs \<noteq> [])"
| "py_bool (VDict kvs) = (kvs \<noteq> [])"
| "py_bool (VBool b) = b"
| "py_bool (VNum n) = (n \<noteq> 0)"
| "py_bool VNone = False"

text \<open>Lists and mappings cannot be dict keys: a subscript with one raises \<^verbatim>\<open>TypeError\<close>.\<close>

fun hashable :: "pyval \<Rightarrow> bool" where
  "hashable (VList xs) = False"
| "hashable (VDict kvs) = False"
| "hashable v = True"

definition DEPENDENCY_TYPES :: "(string \<times> (string \<times> pyval) list) list" where
  "DEPENDENCY_TYPES =
     [(''ignore'',
        [(''ignore'', VBool True)]),
      (''openhome'',
        [(''archive-extension'', VStr ''.tar.gz''),
         (''archive-prefix'', VStr ''''),
         (''archive-suffix'', VStr ''''),
         (''binary-repo'', VStr ''http://openhome.org/releases/artifacts''),
         (''archive-directory'', VStr ''${binary-repo}/${name}/''),
         (''archive-filename'',
            VStr ''${archive-prefix}${name}-${version}-${archive-platform}${archive-suffix}${archive-extension}''),
         (''remote-archive-path'', VStr ''${archive-directory}${archive-filename}''),
         (''use-local-archive'', VBool False),
         (''archive-path'', VStr ''${use-local-archive?local-archive-path:remote-archive-path}''),
         (''source-path'', VStr ''${linn-git-user}@core.linn.co.uk:/home/git''),
         (''repo-name'', VStr ''${name}''),
         (''source-git'', VStr ''${source-path}/${repo-name}.git''),
         (''tag'', VStr ''${repo-name}_${version}''),
         (''any-platform'', VStr ''AnyPlatform''),
         (''platform-specific'', VBool True),
         (''archive-platform'', VStr ''${platform-specific?platform:any-platform}''),
         (''dest'', VStr ''dependencies/${archive-platform}/''),
         (''configure-args'', VList []),
         (''strip-archive-dirs'', VNum 0)]),
      (''external'',
        [(''binary-repo'', VStr ''http://openhome.org/releases/artifacts''),
         (''source-git'', VNone),
         (''any-platform'', VStr ''AnyPlatform''),
         (''platform-specific'', VBool True),
         (''archive-platform'', VStr ''${platform-specific?platform:any-platform}''),
         (''archive-path'', VStr ''${binary-repo}/${archive-platform}/${archive-filename}''),
         (''dest'', VStr ''dependencies/${archive-platform}/''),
         (''configure-args'', VList []),
         (''strip-archive-dirs'', VNum 0)])]"

text \<open>\<^verbatim>\<open>self.dependency_types[dep_type]\<close>.\<close>

definition types_getitem :: "pyval \<Rightarrow> error + (string \<times> pyval) list" where
  "types_getitem dep_type =
     (if \<not> hashable dep_type then Inl TypeError
      else case dep_type of
             VStr s \<Rightarrow>
               (case map_of DEPENDENCY_TYPES s of
                  Some d \<Rightarrow> Inr d
                | None \<Rightarrow> Inl (KeyError dep_type))
           | _ \<Rightarrow> Inl (KeyError dep_type))"

text \<open>
  A \<^verbatim>\<open>Dependency\<close> holds its expander and the override flag; the log file is
  shared by the collection and all its records and is threaded separately.
\<close>

record dependency =
  expander :: expander
  has_overrides :: bool

text \<open>
  \<^verbatim>\<open>self.dependencies\<close>: the records by name. The names are Python values compared
  with \<^verbatim>\<open>==\<close>. The list keeps the order of first insertion; Python 2 leaves the
  order of \<^verbatim>\<open>values()\<close> unspecified, and nothing below depends on it.
\<close>

record collection =
  base_env :: "(string \<times> pyval) list"
  dependencies :: "(pyval \<times> dependency) list"

fun dict_lookup :: "pyval \<Rightarrow> (pyval \<times> 'v) list \<Rightarrow> 'v option" where
  "dict_lookup k [] = None"
| "dict_lookup k ((k', v) # rest) = (if py_eq k' k then Some v else dict_lookup k rest)"

fun dict_setitem :: "pyval \<Rightarrow> 'v \<Rightarrow> (pyval \<times> 'v) list \<Rightarrow> (pyval \<times> 'v) list" where
  "dict_setitem k v [] = [(k, v)]"
| "dict_setitem k v ((k', v') # rest) =
     (if py_eq k' k then (k', v) # rest else (k', v') # dict_setitem k v rest)"

text \<open>
  \<^verbatim>\<open>
  def create_dependency(self, dependency_definition, overrides={}):
      defn = dependency_definition
      env = {}
      env.update(self.base_env)
      if 'type' in defn:
          dep_type = defn['type']
          env.update(self.dependency_types[dep_type])
      env.update(defn)
      env.update(overrides)
      if 'ignore' in env and env['ignore']:
          return
      if 'name' not in env:
          raise ValueError('Dependency definition contains no name')
      name = env['name']
      new_dependency = Dependency(name, env, logfile=self.logfile, has_overrides=len(overrides) > 0)
      self.dependencies[name] = new_dependency
  \<close>
  \<^verbatim>\<open>env.update(d)\<close> is \<^const>\<open>AList.merge\<close>:
  \<^prop>\<open>map_of (AList.merge env d) = map_of env ++ map_of d\<close>.
\<close>

definition create_dependency ::
  "collection \<Rightarrow> (string \<times> pyval) list \<Rightarrow> (string \<times> pyval) list \<Rightarrow> unit outcome \<times> collection"
where
  "create_dependency self defn overrides =
     (let env = AList.merge [] (base_env self)
      in case (case map_of defn ''type'' of
                 None \<Rightarrow> Inr env
               | Some dep_type \<Rightarrow>
                   (case types_getitem dep_type of
                      Inl e \<Rightarrow> Inl e
                    | Inr defaults \<Rightarrow> Inr (AList.merge env defaults))) of
           Inl e \<Rightarrow> (Raise e, self)
         | Inr env \<Rightarrow>
             let env = AList.merge env defn;
                 env = AList.merge env overrides
             in if (case map_of env ''ignore'' of None \<Rightarrow> False | Some v \<Rightarrow> py_bool v)
                then (Return (), self)
                else case map_of env ''name'' of
                       None \<Rightarrow> (Raise ValueError_no_name, self)
                     | Some name \<Rightarrow>
                         if \<not> hashable name then (Raise TypeError, self)
                         else
                           (Return (),
                            self\<lparr>dependencies :=
                              dict_setitem name
                                \<lparr>expander = new_expander env, has_overrides = (overrides \<noteq> [])\<rparr>
                                (dependencies self)\<rparr>))"

text \<open>
  The layering as the specification words it: the override's value if it has the key,
  else the definition's, else the type defaults', else the base environment's.
\<close>

definition layered_lookup ::
  "(string \<times> pyval) list \<Rightarrow> (string \<times> pyval) list \<Rightarrow> (string \<times> pyval) list \<Rightarrow>
   (string \<times> pyval) list \<Rightarrow> string \<Rightarrow> pyval option"
where
  "layered_lookup base defaults defn overrides k =
     (case map_of overrides k of
        Some v \<Rightarrow> Some v
      | None \<Rightarrow>
          (case map_of defn k of
             Some v \<Rightarrow> Some v
           | None \<Rightarrow>
               (case map_of defaults k of
                  Some v \<Rightarrow> Some v
                | None \<Rightarrow> map_of base k)))"

section \<open>The world outside the program\<close>

text \<open>
  The lines written to the log file, one constructor per \<^verbatim>\<open>logfile.write\<close> of
  the source, with the values that are formatted into the line.
\<close>

datatype logmsg =
    Log_fetching pyval pyval           \<comment> \<open>\<^verbatim>\<open>"Fetching '%s'\n  from '%s'\n" % (self.name, remote_path)\<close>\<close>
  | Log_FAILED                         \<comment> \<open>\<^verbatim>\<open>"  FAILED\n"\<close>\<close>
  | Log_unpacking string               \<comment> \<open>\<^verbatim>\<open>"  unpacking to '%s'\n" % (local_path,)\<close>\<close>
  | Log_OK                             \<comment> \<open>\<^verbatim>\<open>"  OK\n"\<close>\<close>
  | Log_no_git_repo pyval              \<comment> \<open>\<^verbatim>\<open>'No git repo defined for {0}.\n'\<close>\<close>
  | Log_fetching_source string string  \<comment> \<open>\<^verbatim>\<open>"Fetching source for '%s'\n  into '%s'\n"\<close>\<close>
  | Log_git_clone pyval string         \<comment> \<open>\<^verbatim>\<open>'  git clone {0} {1}\n'\<close>\<close>
  | Log_cannot_checkout string         \<comment> \<open>\<^verbatim>\<open>'Cannot checkout {0}, because directory ../{0} already exists\n'\<close>\<close>
  | Log_git_fetch_origin               \<comment> \<open>\<^verbatim>\<open>'  git fetch origin\n'\<close>\<close>
  | Log_git_checkout pyval             \<comment> \<open>\<^verbatim>\<open>"  git checkout {0}\n"\<close>\<close>
  | Log_CalledProcessError "string list" nat   \<comment> \<open>\<^verbatim>\<open>str(cpe)+'\n'\<close>: the command and its exit status\<close>
  | Log_failed_to_fetch "string list"          \<comment> \<open>\<^verbatim>\<open>"Failed to fetch some dependencies: " + ...\<close>\<close>
  | Log_failed_to_check_out "string list"      \<comment> \<open>\<^verbatim>\<open>"Failed to check out some dependencies: " + ...\<close>\<close>

text \<open>
  \<^verbatim>\<open>get_opener_for_path\<close> chooses among three openers. The regular expression
  \<^verbatim>\<open>[^\W\d]{2,8}:\<close> asks for two to eight letters or underscores and then a colon
  at the start of the path.
\<close>

datatype opener = Open_file_url | Urlopen | Open_builtin

definition get_opener_for_path :: "string \<Rightarrow> opener" where
  "get_opener_for_path path =
     (if take 5 path = ''file:'' \<or> take 4 path = ''smb:'' then Open_file_url
      else
        let scheme = takeWhile is_ident_start path
        in if 2 \<le> length scheme \<and> length scheme \<le> 8
              \<and> take 1 (drop (length scheme) path) = '':''
           then Urlopen
           else Open_builtin)"

text \<open>An opened archive: whether it is a \<^verbatim>\<open>TarFile\<close>, and the names of its entries.\<close>

record archive =
  is_tar :: bool
  entry_names :: "string list"

text \<open>
  The operating system, the network and git are parameters of the model. Each one takes
  the state of the world \<open>'w\<close> and gives the outcome of the call and the next state.
  \<^item> \<open>sys_abspath\<close>: \<^verbatim>\<open>os.path.abspath\<close>.
  \<^item> \<open>sys_open\<close>: calling the opener and then \<^verbatim>\<open>openarchive\<close> on the stream;
    any exception is possible, \<^const>\<open>IOError\<close> among them.
  \<^item> \<open>sys_makedirs\<close>: \<^verbatim>\<open>os.makedirs\<close>; \<open>Some e\<close> is an \<^verbatim>\<open>OSError\<close>
    with the error number \<open>e\<close>.
  \<^item> \<open>sys_extractall\<close>: \<^verbatim>\<open>archive.extractall\<close> with the given entry names.
  \<^item> \<open>sys_exists\<close>, \<open>sys_isdir\<close>: \<^verbatim>\<open>os.path.exists\<close>, \<^verbatim>\<open>os.path.isdir\<close>.
    Both answer false for a path they cannot reach, and both raise for a path that is
    no path at all (in Python 2, \<^verbatim>\<open>TypeError\<close> for a string with a NUL byte).
  \<^item> \<open>sys_call\<close>: starting a command with an argument list in a working directory
    and waiting for it, as \<^verbatim>\<open>subprocess.Popen(args, cwd=cwd, shell=True).wait()\<close>
    does: \<open>Inr\<close> the exit status, or \<open>Inl\<close> the exception raised when the
    command cannot be started (\<^verbatim>\<open>OSError\<close> for a working directory that is
    missing or cannot be entered, \<^verbatim>\<open>TypeError\<close> for an argument with a NUL byte).
\<close>

datatype errno = EEXIST | EACCES | ENOENT | ENOTDIR | ENOSPC | EROFS

record 'w sys =
  sys_abspath :: "string \<Rightarrow> string"
  sys_open :: "opener \<Rightarrow> string \<Rightarrow> 'w \<Rightarrow> (error + archive) \<times> 'w"
  sys_makedirs :: "string \<Rightarrow> 'w \<Rightarrow> errno option \<times> 'w"
  sys_extractall :: "archive \<Rightarrow> string \<Rightarrow> 'w \<Rightarrow> error option \<times> 'w"
  sys_exists :: "string \<Rightarrow> 'w \<Rightarrow> error + bool"
  sys_isdir :: "string \<Rightarrow> 'w \<Rightarrow> error + bool"
  sys_call :: "string list \<Rightarrow> string \<Rightarrow> 'w \<Rightarrow> (error + nat) \<times> 'w"

text \<open>What one method call of a \<^verbatim>\<open>Dependency\<close> reads and writes.\<close>

record 'w run =
  dep :: dependency
  logfile :: "logmsg list"
  world :: 'w

definition log_write :: "logmsg \<Rightarrow> 'w run \<Rightarrow> 'w run" where
  "log_write msg r = r\<lparr>logfile := logfile r @ [msg]\<rparr>"

text \<open>\<^verbatim>\<open>self.expander.expand(key)\<close>, also \<^verbatim>\<open>self[key]\<close> and \<^verbatim>\<open>self.name\<close>.\<close>

definition getitem :: "string \<Rightarrow> 'w run \<Rightarrow> pyval outcome \<times> 'w run" where
  "getitem key r =
     (case resolve key (expander (dep r)) of
        (res, x) \<Rightarrow> (res, r\<lparr>dep := (dep r)\<lparr>expander := x\<rparr>\<rparr>))"

text \<open>Sequencing: an exception or an exhausted fuel ends the method.\<close>

definition bind ::
  "('s \<Rightarrow> 'a outcome \<times> 's) \<Rightarrow> ('a \<Rightarrow> 's \<Rightarrow> 'b outcome \<times> 's) \<Rightarrow> 's \<Rightarrow> 'b outcome \<times> 's"
where
  "bind m f s =
     (case m s of
        (Return a, s1) \<Rightarrow> f a s1
      | (Raise e, s1) \<Rightarrow> (Raise e, s1)
      | (NoFuel, s1) \<Rightarrow> (NoFuel, s1))"

section \<open>extract_archive\<close>

text \<open>
  \<^verbatim>\<open>strip_dirs > 0\<close> in Python 2 for a value of any type: numbers compare by value,
  \<^verbatim>\<open>None\<close> is below every number, every other value is above every number.
\<close>

fun py2_greater_than_zero :: "pyval \<Rightarrow> bool" where
  "py2_greater_than_zero (VNum n) = (0 < n)"
| "py2_greater_than_zero (VBool b) = b"
| "py2_greater_than_zero VNone = False"
| "py2_greater_than_zero v = True"

fun split_on :: "char \<Rightarrow> string \<Rightarrow> string list" where
  "split_on d [] = [[]]"
| "split_on d (c # cs) =
     (if c = d then [] # split_on d cs
      else (case split_on d cs of
              [] \<Rightarrow> [[c]]
            | x # xs \<Rightarrow> (c # x) # xs))"

fun join_with :: "string \<Rightarrow> string list \<Rightarrow> string" where
  "join_with sep [] = []"
| "join_with sep [x] = x"
| "join_with sep (x # y # ys) = x @ sep @ join_with sep (y # ys)"

text \<open>
  \<^verbatim>\<open>
  def extract_archive(archive, local_path, strip_dirs=0):
      if strip_dirs > 0:
          if not isinstance(archive, tarfile.TarFile):
              raise Exception('Cannot strip leading directories from zip archives.')
          for entry in archive:
              entry.name = '/'.join(entry.name.split('/')[strip_dirs:])
      archive.extractall(local_path)
  \<close>
  The slice needs an integer (a boolean is one): any other value of
  \<^verbatim>\<open>strip_dirs\<close> is a \<^verbatim>\<open>TypeError\<close> at the first entry.
\<close>

definition extract_archive ::
  "'w sys \<Rightarrow> archive \<Rightarrow> string \<Rightarrow> pyval \<Rightarrow> 'w \<Rightarrow> error option \<times> 'w"
where
  "extract_archive sys archive local_path strip_dirs w =
     (if py2_greater_than_zero strip_dirs then
        if \<not> is_tar archive
        then (Some (OtherError ''Cannot strip leading directories from zip archives.''), w)
        else
          (case num_of strip_dirs of
             None \<Rightarrow>
               if entry_names archive = [] then sys_extractall sys archive local_path w
               else (Some TypeError, w)
           | Some n \<Rightarrow>
               sys_extractall sys
                 (archive\<lparr>entry_names :=
                    map (\<lambda>name. join_with ''/'' (drop (nat n) (split_on (CHR ''/'') name)))
                      (entry_names archive)\<rparr>)
                 local_path w)
      else sys_extractall sys archive local_path w)"

section \<open>Dependency.fetch\<close>

text \<open>
  \<^verbatim>\<open>
  def fetch(self):
      remote_path = self.expander.expand('archive-path')
      local_path = os.path.abspath(self.expander.expand('dest'))
      strip_dirs = self.expander.expand('strip-archive-dirs')
      self.logfile.write("Fetching '%s'\n  from '%s'\n" % (self.name, remote_path))
      try:
          opener = get_opener_for_path(remote_path)
          remote_file = opener(remote_path)
          archive = openarchive(name=remote_path, fileobj=remote_file)
      except IOError:
          self.logfile.write("  FAILED\n")
          return False
      try:
          os.makedirs(local_path)
      except OSError:
          # We get an error if the directory exists, which we are happy to
          # ignore. If something worse went wrong, we will find out very
          # soon when we try to extract the files.
          pass
      self.logfile.write("  unpacking to '%s'\n" % (local_path,))
      extract_archive(archive, local_path, strip_dirs)
      archive.close()
      remote_file.close()
      self.logfile.write("  OK\n")
      return True
  \<close>
  A path that is not a string has no \<^verbatim>\<open>startswith\<close>: \<^verbatim>\<open>os.path.abspath\<close>
  and \<^verbatim>\<open>get_opener_for_path\<close> raise \<^verbatim>\<open>AttributeError\<close>. Closing the archive
  and the stream is taken not to fail.
\<close>

definition py_abspath :: "'w sys \<Rightarrow> pyval \<Rightarrow> 'w run \<Rightarrow> string outcome \<times> 'w run" where
  "py_abspath sys path r =
     (case path of
        VStr p \<Rightarrow> (Return (sys_abspath sys p), r)
      | _ \<Rightarrow> (Raise AttributeError, r))"

definition open_remote :: "'w sys \<Rightarrow> pyval \<Rightarrow> 'w \<Rightarrow> (error + archive) \<times> 'w" where
  "open_remote sys remote_path w =
     (case remote_path of
        VStr p \<Rightarrow> sys_open sys (get_opener_for_path p) p w
      | _ \<Rightarrow> (Inl AttributeError, w))"

definition Dependency_fetch :: "'w sys \<Rightarrow> 'w run \<Rightarrow> bool outcome \<times> 'w run" where
  "Dependency_fetch sys =
     bind (getitem ''archive-path'') (\<lambda>remote_path.
     bind (getitem ''dest'') (\<lambda>dest.
     bind (py_abspath sys dest) (\<lambda>local_path.
     bind (getitem ''strip-archive-dirs'') (\<lambda>strip_dirs.
     bind (getitem ''name'') (\<lambda>name r0.
       let r1 = log_write (Log_fetching name remote_path) r0
       in case open_remote sys remote_path (world r1) of
            (Inl e, w2) \<Rightarrow>
              if e = IOError then (Return False, log_write Log_FAILED (r1\<lparr>world := w2\<rparr>))
              else (Raise e, r1\<lparr>world := w2\<rparr>)
          | (Inr archive, w2) \<Rightarrow>
              (case sys_makedirs sys local_path w2 of
                 (oserror, w3) \<Rightarrow>
                   let r3 = log_write (Log_unpacking local_path) (r1\<lparr>world := w3\<rparr>)
                   in case extract_archive sys archive local_path strip_dirs (world r3) of
                        (Some e, w4) \<Rightarrow> (Raise e, r3\<lparr>world := w4\<rparr>)
                      | (None, w4) \<Rightarrow> (Return True, log_write Log_OK (r3\<lparr>world := w4\<rparr>))))))))"

section \<open>Dependency.checkout\<close>

text \<open>
  \<^verbatim>\<open>subprocess.check_call(args, cwd=..., shell=True)\<close> starts the command, waits
  for it and looks at the exit status. An argument that is not a string is a
  \<^verbatim>\<open>TypeError\<close>; an exception raised when the command cannot be started leaves
  \<^verbatim>\<open>check_call\<close> as it is; a non-zero exit status is a
  \<^verbatim>\<open>CalledProcessError\<close>, kept here as the command and the status.
\<close>

fun str_of :: "pyval \<Rightarrow> string option" where
  "str_of (VStr s) = Some s"
| "str_of v = None"

datatype call_result =
    Exit_ok
  | CalledProcessError "string list" nat
  | Call_raises error                     \<comment> \<open>any exception that is not a \<^verbatim>\<open>CalledProcessError\<close>\<close>

definition check_call :: "'w sys \<Rightarrow> pyval list \<Rightarrow> string \<Rightarrow> 'w \<Rightarrow> call_result \<times> 'w" where
  "check_call sys args cwd w =
     (case those (map str_of args) of
        None \<Rightarrow> (Call_raises TypeError, w)
      | Some cmd \<Rightarrow>
          (case sys_call sys cmd cwd w of
             (Inl e, w1) \<Rightarrow> (Call_raises e, w1)
           | (Inr status, w1) \<Rightarrow>
               if status = 0 then (Exit_ok, w1) else (CalledProcessError cmd status, w1)))"

text \<open>
  \<^verbatim>\<open>
  def checkout(self):
      name = self['name']
      sourcegit = self['source-git']
      if sourcegit is None:
          self.logfile.write('No git repo defined for {0}.\n'.format(name))
          return False
      self.logfile.write("Fetching source for '%s'\n  into '%s'\n" % (name, os.path.abspath('../'+name)))
      tag = self['tag']
      try:
          if not os.path.exists('../'+name):
              self.logfile.write('  git clone {0} {1}\n'.format(sourcegit, name))
              subprocess.check_call(['git', 'clone', sourcegit, name], cwd='..', shell=True)
          elif not os.path.isdir('../'+name):
              self.logfile.write('Cannot checkout {0}, because directory ../{0} already exists\n'.format(name))
              return False
          else:
              self.logfile.write('  git fetch origin\n')
              subprocess.check_call(['git', 'fetch', 'origin'], cwd='../'+name, shell=True)
          self.logfile.write("  git checkout {0}\n".format(tag))
          subprocess.check_call(['git', 'checkout', tag], cwd='../'+name, shell=True)
      except subprocess.CalledProcessError as cpe:
          self.logfile.write(str(cpe)+'\n')
          return False
      return True
  \<close>
  \<^verbatim>\<open>'../'+name\<close> is a \<^verbatim>\<open>TypeError\<close> when the name is not a string. The
  handler catches \<^verbatim>\<open>CalledProcessError\<close> only: every other exception raised
  inside the \<^verbatim>\<open>try\<close> leaves \<^verbatim>\<open>checkout\<close>.
\<close>

definition git_checkout_tag :: "'w sys \<Rightarrow> string \<Rightarrow> pyval \<Rightarrow> 'w run \<Rightarrow> bool outcome \<times> 'w run" where
  "git_checkout_tag sys name tag r =
     (let r1 = log_write (Log_git_checkout tag) r
      in case check_call sys [VStr ''git'', VStr ''checkout'', tag] (''../'' @ name) (world r1) of
           (Exit_ok, w) \<Rightarrow> (Return True, r1\<lparr>world := w\<rparr>)
         | (CalledProcessError cmd status, w) \<Rightarrow>
             (Return False, log_write (Log_CalledProcessError cmd status) (r1\<lparr>world := w\<rparr>))
         | (Call_raises e, w) \<Rightarrow> (Raise e, r1\<lparr>world := w\<rparr>))"

definition Dependency_checkout :: "'w sys \<Rightarrow> 'w run \<Rightarrow> bool outcome \<times> 'w run" where
  "Dependency_checkout sys =
     bind (getitem ''name'') (\<lambda>name.
     bind (getitem ''source-git'') (\<lambda>sourcegit r0.
       if sourcegit = VNone then (Return False, log_write (Log_no_git_repo name) r0)
       else
         case str_of name of
           None \<Rightarrow> (Raise TypeError, r0)
         | Some nm \<Rightarrow>
             bind (getitem ''tag'') (\<lambda>tag r2.
               case sys_exists sys (''../'' @ nm) (world r2) of
                 Inl e \<Rightarrow> (Raise e, r2)
               | Inr exists \<Rightarrow>
                   if \<not> exists then
                     (let r3 = log_write (Log_git_clone sourcegit nm) r2
                      in case check_call sys [VStr ''git'', VStr ''clone'', sourcegit, VStr nm] ''..''
                                (world r3) of
                           (Exit_ok, w) \<Rightarrow> git_checkout_tag sys nm tag (r3\<lparr>world := w\<rparr>)
                         | (CalledProcessError cmd status, w) \<Rightarrow>
                             (Return False,
                              log_write (Log_CalledProcessError cmd status) (r3\<lparr>world := w\<rparr>))
                         | (Call_raises e, w) \<Rightarrow> (Raise e, r3\<lparr>world := w\<rparr>))
                   else
                     (case sys_isdir sys (''../'' @ nm) (world r2) of
                        Inl e \<Rightarrow> (Raise e, r2)
                      | Inr isdir \<Rightarrow>
                          if \<not> isdir then (Return False, log_write (Log_cannot_checkout nm) r2)
                          else
                            (let r3 = log_write Log_git_fetch_origin r2
                             in case check_call sys [VStr ''git'', VStr ''fetch'', VStr ''origin'']
                                       (''../'' @ nm) (world r3) of
                                  (Exit_ok, w) \<Rightarrow> git_checkout_tag sys nm tag (r3\<lparr>world := w\<rparr>)
                                | (CalledProcessError cmd status, w) \<Rightarrow>
                                    (Return False,
                                     log_write (Log_CalledProcessError cmd status) (r3\<lparr>world := w\<rparr>))
                                | (Call_raises e, w) \<Rightarrow> (Raise e, r3\<lparr>world := w\<rparr>))))
               (log_write (Log_fetching_source nm (sys_abspath sys (''../'' @ nm))) r0)))"

section \<open>DependencyCollection.fetch and checkout\<close>

text \<open>
  \<^verbatim>\<open>
  def _filter(self, subset=None):
      if subset is None:
          return self.dependencies.values()
      missing_dependencies = [name for name in subset if name not in self.dependencies]
      if len(missing_dependencies) > 0:
          raise Exception("No entries in dependency file named: " + ", ".join(missing_dependencies) + ".")
      return [self.dependencies[name] for name in subset]
  \<close>
  The records are objects of the collection: the model returns their keys, and a method
  call on a record reads it from the collection and writes it back (\<open>call_on\<close>).
\<close>

definition private_filter :: "collection \<Rightarrow> pyval list option \<Rightarrow> error + pyval list" where
  "private_filter self selected =
     (case selected of
        None \<Rightarrow> Inr (map fst (dependencies self))
      | Some names \<Rightarrow>
          if \<not> list_all hashable names then Inl TypeError
          else
            let missing_dependencies =
                  filter (\<lambda>name. Option.is_none (dict_lookup name (dependencies self))) names
            in if missing_dependencies \<noteq> [] then
                 (case those (map str_of missing_dependencies) of
                    None \<Rightarrow> Inl TypeError
                  | Some ms \<Rightarrow>
                      Inl (OtherError (''No entries in dependency file named: ''
                                         @ join_with '', '' ms @ ''.'')))
               else Inr names)"

type_synonym 'w batch_state = "collection \<times> logmsg list \<times> 'w"

definition call_on ::
  "('w run \<Rightarrow> 'a outcome \<times> 'w run) \<Rightarrow> pyval \<Rightarrow> 'w batch_state \<Rightarrow> 'a outcome \<times> 'w batch_state"
where
  "call_on method k st =
     (case st of (coll, lg, w) \<Rightarrow>
        (case dict_lookup k (dependencies coll) of
           None \<Rightarrow> (Raise (KeyError k), st)
         | Some d \<Rightarrow>
             (case method \<lparr>dep = d, logfile = lg, world = w\<rparr> of
                (res, r) \<Rightarrow>
                  (res,
                   (coll\<lparr>dependencies := dict_setitem k (dep r) (dependencies coll)\<rparr>,
                    logfile r, world r)))))"

text \<open>
  \<^verbatim>\<open>
  def fetch(self, subset=None):
      dependencies = self._filter(subset)
      failed_dependencies = []
      for d in dependencies:
          if not d.fetch():
              failed_dependencies.append(d.name)
      if failed_dependencies:
          self.logfile.write("Failed to fetch some dependencies: " + ' '.join(failed_dependencies) + '\n')
          return False
      return True
  \<close>
  \<^verbatim>\<open>checkout\<close> is the same text with \<^verbatim>\<open>d.checkout()\<close> and its own message, so
  both are instances of one loop over the method and the message.
\<close>

fun for_each_dependency ::
  "('w run \<Rightarrow> bool outcome \<times> 'w run) \<Rightarrow> pyval list \<Rightarrow> pyval list \<Rightarrow> 'w batch_state \<Rightarrow>
   pyval list outcome \<times> 'w batch_state"
where
  "for_each_dependency method [] failed_dependencies st = (Return failed_dependencies, st)"
| "for_each_dependency method (d # ds) failed_dependencies st =
     (case call_on method d st of
        (NoFuel, st1) \<Rightarrow> (NoFuel, st1)
      | (Raise e, st1) \<Rightarrow> (Raise e, st1)
      | (Return ok, st1) \<Rightarrow>
          if ok then for_each_dependency method ds failed_dependencies st1
          else
            (case call_on (getitem ''name'') d st1 of
               (NoFuel, st2) \<Rightarrow> (NoFuel, st2)
             | (Raise e, st2) \<Rightarrow> (Raise e, st2)
             | (Return name, st2) \<Rightarrow>
                 for_each_dependency method ds (failed_dependencies @ [name]) st2))"

definition batch ::
  "('w run \<Rightarrow> bool outcome \<times> 'w run) \<Rightarrow> (string list \<Rightarrow> logmsg) \<Rightarrow>
   pyval list option \<Rightarrow> 'w batch_state \<Rightarrow> bool outcome \<times> 'w batch_state"
where
  "batch method message selected st =
     (case private_filter (fst st) selected of
        Inl e \<Rightarrow> (Raise e, st)
      | Inr selected_dependencies \<Rightarrow>
          (case for_each_dependency method selected_dependencies [] st of
             (NoFuel, st1) \<Rightarrow> (NoFuel, st1)
           | (Raise e, st1) \<Rightarrow> (Raise e, st1)
           | (Return failed_dependencies, (coll, lg, w)) \<Rightarrow>
               if failed_dependencies \<noteq> [] then
                 (case those (map str_of failed_dependencies) of
                    None \<Rightarrow> (Raise TypeError, (coll, lg, w))
                  | Some names \<Rightarrow> (Return False, (coll, lg @ [message names], w)))
               else (Return True, (coll, lg, w))))"

definition DependencyCollection_fetch ::
  "'w sys \<Rightarrow> pyval list option \<Rightarrow> 'w batch_state \<Rightarrow> bool outcome \<times> 'w batch_state"
where
  "DependencyCollection_fetch sys = batch (Dependency_fetch sys) Log_failed_to_fetch"

definition DependencyCollection_checkout ::
  "'w sys \<Rightarrow> pyval list option \<Rightarrow> 'w batch_state \<Rightarrow> bool outcome \<times> 'w batch_state"
where
  "DependencyCollection_checkout sys = batch (Dependency_checkout sys) Log_failed_to_check_out"

text \<open>
  The batch as the specification words it: the method of every entry is called, one
  after the other, whatever the earlier calls gave.
\<close>

fun attempt_each ::
  "('w run \<Rightarrow> bool outcome \<times> 'w run) \<Rightarrow> pyval list \<Rightarrow> 'w batch_state \<Rightarrow>
   bool outcome list \<times> 'w batch_state"
where
  "attempt_each method [] st = ([], st)"
| "attempt_each method (d # ds) st =
     (case call_on method d st of
        (res, st1) \<Rightarrow>
          (case attempt_each method ds st1 of
             (rs, st2) \<Rightarrow> (res # rs, st2)))"

text \<open>The resolved name of an entry, as its record has it in the cache.\<close>

definition entry_name :: "collection \<Rightarrow> pyval \<Rightarrow> pyval option" where
  "entry_name coll k =
     (case dict_lookup k (dependencies coll) of
        None \<Rightarrow> None
      | Some d \<Rightarrow> cache (expander d) ''name'')"


section \<open>clean_directories\<close>












section \<open>Example worlds\<close>

text \<open>
  A world where every archive opens as an empty tar file, \<^verbatim>\<open>os.makedirs\<close> is
  refused for lack of permission, extraction succeeds and git exits with status 0; and a
  record with the four keys \<^verbatim>\<open>fetch\<close> reads.
\<close>

definition example_sys :: "unit sys" where
  "example_sys =
     \<lparr>sys_abspath = (\<lambda>p. ''/work/'' @ p),
      sys_open = (\<lambda>opener path w. (Inr \<lparr>is_tar = True, entry_names = []\<rparr>, w)),
      sys_makedirs = (\<lambda>path w. (Some EACCES, w)),
      sys_extractall = (\<lambda>archive path w. (None, w)),
      sys_exists = (\<lambda>path w. Inr False),
      sys_isdir = (\<lambda>path w. Inr False),
      sys_call = (\<lambda>args cwd w. (Inr 0, w))\<rparr>"

definition example_fetch_run :: "unit run" where
  "example_fetch_run =
     \<lparr>dep = \<lparr>expander = new_expander
                 [(''name'', VStr ''A''),
                  (''archive-path'', VStr ''/srv/a.tar.gz''),
                  (''dest'', VStr ''dependencies/AnyPlatform/''),
                  (''strip-archive-dirs'', VNum 0)],
             has_overrides = False\<rparr>,
      logfile = [],
      world = ()\<rparr>"


text \<open>The same world with the archive server out of reach.\<close>

definition example_sys_offline :: "unit sys" where
  "example_sys_offline =
     example_sys\<lparr>sys_open := (\<lambda>opener path w. (Inl IOError, w))\<rparr>"






text \<open>
  A collection of two records, \<^verbatim>\<open>A\<close> without a repository and \<^verbatim>\<open>B\<close> with
  one, and a world where the archive of \<^verbatim>\<open>A\<close> cannot be opened.
\<close>

definition example_collection :: collection where
  "example_collection =
     \<lparr>base_env = [],
      dependencies =
        [(VStr ''A'',
          \<lparr>expander = new_expander
             [(''name'', VStr ''A''),
              (''archive-path'', VStr ''/srv/a.tar.gz''),
              (''dest'', VStr ''dependencies/AnyPlatform/''),
              (''strip-archive-dirs'', VNum 0),
              (''source-git'', VNone)],
           has_overrides = False\<rparr>),
         (VStr ''B'',
          \<lparr>expander = new_expander
             [(''name'', VStr ''B''),
              (''archive-path'', VStr ''/srv/b.tar.gz''),
              (''dest'', VStr ''dependencies/AnyPlatform/''),
              (''strip-archive-dirs'', VNum 0),
              (''source-git'', VStr ''git@example.org:B.git''),
              (''tag'', VStr ''B_1'')],
           has_overrides = False\<rparr>)]\<rparr>"

definition example_sys_a_missing :: "unit sys" where
  "example_sys_a_missing =
     example_sys\<lparr>sys_open :=
       (\<lambda>opener path w.
          if path = ''/srv/a.tar.gz'' then (Inl IOError, w)
          else (Inr \<lparr>is_tar = True, entry_names = []\<rparr>, w)),
       sys_makedirs := (\<lambda>path w. (None, w))\<rparr>"

text \<open>
  A world where every archive opens and no file can be written, so that
  \<^verbatim>\<open>extractall\<close> raises \<^verbatim>\<open>IOError\<close>; and a collection whose one record has a
  number for its name and no repository.
\<close>

definition example_sys_disk_full :: "unit sys" where
  "example_sys_disk_full =
     example_sys\<lparr>sys_extractall := (\<lambda>archive path w. (Some IOError, w))\<rparr>"

definition example_collection_numbered :: collection where
  "example_collection_numbered =
     \<lparr>base_env = [],
      dependencies =
        [(VNum 7,
          \<lparr>expander = new_expander [(''name'', VNum 7), (''source-git'', VNone)],
           has_overrides = False\<rparr>)]\<rparr>"

section \<open>Properties of the expander\<close>

subsection \<open>Invariants carried through the helper methods\<close>

lemma expandconditional_inv:
  assumes ex: "\<And>k s. I s \<Longrightarrow> I (snd (ex k s)) \<and> (b \<longrightarrow> fst (ex k s) \<noteq> NoFuel)"
    and st: "I st"
  shows "I (snd (expandconditional ex key st)) \<and> (b \<longrightarrow> fst (expandconditional ex key st) \<noteq> NoFuel)"
proof -
  let ?c = "strip (fst (split_once (CHR ''?'') key))"
  obtain r st1 where c: "ex ?c st = (r, st1)" by (cases "ex ?c st")
  from ex [OF st, of ?c] c have st1: "I st1" and r: "b \<longrightarrow> r \<noteq> NoFuel" by simp_all
  note ex1 = ex [OF st1]
  show ?thesis
    using st st1 r c ex1
    by (cases r) (simp_all add: expandconditional_def Let_def split_def)
qed

lemma replacematch_inv:
  assumes ex: "\<And>k s. I s \<Longrightarrow> I (snd (ex k s)) \<and> (b \<longrightarrow> fst (ex k s) \<noteq> NoFuel)"
    and st: "I st"
  shows "I (snd (replacematch ex t st)) \<and> (b \<longrightarrow> fst (replacematch ex t st) \<noteq> NoFuel)"
  using st ex [OF st] expandconditional_inv [of I ex b st, OF ex st]
  by (cases t) (simp_all add: Let_def)

lemma sub_inv:
  assumes ex: "\<And>k s. I s \<Longrightarrow> I (snd (ex k s)) \<and> (b \<longrightarrow> fst (ex k s) \<noteq> NoFuel)"
  shows "I st \<Longrightarrow> I (snd (sub ex ts st)) \<and> (b \<longrightarrow> fst (sub ex ts st) \<noteq> NoFuel)"
proof (induction ts arbitrary: st)
  case Nil
  then show ?case by simp
next
  case (Cons t ts)
  show ?case
  proof (cases t)
    case (Text s)
    obtain r st1 where ts: "sub ex ts st = (r, st1)" by (cases "sub ex ts st")
    from Cons.IH [OF Cons.prems] ts have "I st1" and "b \<longrightarrow> r \<noteq> NoFuel" by simp_all
    with Text ts show ?thesis by (cases r) simp_all
  next
    case (Match m)
    obtain r st1 where t: "replacematch ex m st = (r, st1)" by (cases "replacematch ex m st")
    from replacematch_inv [of I ex b st m, OF ex Cons.prems] t
    have st1: "I st1" and r: "b \<longrightarrow> r \<noteq> NoFuel" by simp_all
    obtain r2 st2 where ts: "sub ex ts st1 = (r2, st2)" by (cases "sub ex ts st1")
    from Cons.IH [OF st1] ts have "I st2" and "b \<longrightarrow> r2 \<noteq> NoFuel" by simp_all
    with Match st1 r t ts show ?thesis
      by (cases r; cases r2) simp_all
  qed
qed

lemma private_expandvalue_inv:
  "(\<And>k s. I s \<Longrightarrow> I (snd (ex k s)) \<and> (b \<longrightarrow> fst (ex k s) \<noteq> NoFuel)) \<Longrightarrow> I st \<Longrightarrow>
     I (snd (private_expandvalue ex v st)) \<and> (b \<longrightarrow> fst (private_expandvalue ex v st) \<noteq> NoFuel)"
  "(\<And>k s. I s \<Longrightarrow> I (snd (ex k s)) \<and> (b \<longrightarrow> fst (ex k s) \<noteq> NoFuel)) \<Longrightarrow> I st \<Longrightarrow>
     I (snd (private_expandvalues ex vs st)) \<and> (b \<longrightarrow> fst (private_expandvalues ex vs st) \<noteq> NoFuel)"
proof (induction ex v st and ex vs st rule: private_expandvalue_private_expandvalues.induct)
  case (1 ex s st)
  obtain r st1 where t: "sub ex (tokenize s) st = (r, st1)" by (cases "sub ex (tokenize s) st")
  from sub_inv [of I ex b st "tokenize s", OF 1(1) 1(2)] t
  have "I st1" and "b \<longrightarrow> r \<noteq> NoFuel" by simp_all
  with t show ?case by (cases r) (simp_all split: sum.splits)
next
  case (2 ex xs st)
  obtain r st1 where t: "private_expandvalues ex xs st = (r, st1)"
    by (cases "private_expandvalues ex xs st")
  from 2(1) [OF 2(2) 2(3)] t have "I st1" and "b \<longrightarrow> r \<noteq> NoFuel" by simp_all
  with t show ?case by (cases r) simp_all
next
  case (8 ex x xs st)
  obtain r st1 where t: "private_expandvalue ex x st = (r, st1)"
    by (cases "private_expandvalue ex x st")
  from 8(1) [OF 8(3) 8(4)] t have st1: "I st1" and r: "b \<longrightarrow> r \<noteq> NoFuel" by simp_all
  show ?case
  proof (cases r)
    case (Return y)
    obtain r2 st2 where t2: "private_expandvalues ex xs st1 = (r2, st2)"
      by (cases "private_expandvalues ex xs st1")
    from 8(2) [OF t [symmetric] Return 8(3) st1] t2
    have "I st2" and "b \<longrightarrow> r2 \<noteq> NoFuel" by simp_all
    with t t2 Return show ?thesis by (cases r2) simp_all
  next
    case (Raise e)
    with t st1 show ?thesis by simp
  next
    case NoFuel
    with t st1 r show ?thesis by simp
  qed
qed simp_all

lemma private_expand_inv:
  assumes ex: "\<And>k s. I s \<Longrightarrow> I (snd (ex k s)) \<and> (b \<longrightarrow> fst (ex k s) \<noteq> NoFuel)"
    and st: "I st"
  shows "I (snd (private_expand ex key st)) \<and> (b \<longrightarrow> fst (private_expand ex key st) \<noteq> NoFuel)"
  using st private_expandvalue_inv(1) [of I ex b st, OF ex st]
  by (simp add: private_expand_def split: option.splits)

subsection \<open>Invariants of \<open>expand\<close> and the fuel bound\<close>

lemma expand_Suc_cases:
  obtains (hit) v where "cache st key = Some v" and "expand (Suc n) key st = (Return v, st)"
  | (cycle) "cache st key = None" and "key \<in> expandset st"
      and "expand (Suc n) key st = (Raise (ValueError_recursive key), st)"
  | (run) r st1 where "cache st key = None" and "key \<notin> expandset st"
      and "private_expand (expand n) key (st\<lparr>expandset := insert key (expandset st)\<rparr>) = (r, st1)"
      and "expand (Suc n) key st =
            (case r of
               Return result \<Rightarrow>
                 (Return result,
                  st1\<lparr>cache := (cache st1)(key \<mapsto> result), expandset := expandset st1 - {key}\<rparr>)
             | Raise e \<Rightarrow> (Raise e, st1)
             | NoFuel \<Rightarrow> (NoFuel, st1))"
proof (cases "cache st key")
  case (Some v)
  then show ?thesis using hit by simp
next
  case None
  show ?thesis
  proof (cases "key \<in> expandset st")
    case True
    with None show ?thesis using cycle by simp
  next
    case False
    obtain r st1 where
      pe: "private_expand (expand n) key (st\<lparr>expandset := insert key (expandset st)\<rparr>) = (r, st1)"
      by (cases "private_expand (expand n) key (st\<lparr>expandset := insert key (expandset st)\<rparr>)")
    with None False show ?thesis using run [of r st1] by (cases r) simp_all
  qed
qed

lemma expand_env_dict: "env_dict (snd (expand n key st)) = env_dict st"
proof (induction n arbitrary: key st)
  case 0
  show ?case by simp
next
  case (Suc n)
  show ?case
  proof (cases rule: expand_Suc_cases [of st key n])
    case (hit v)
    then show ?thesis by simp
  next
    case cycle
    then show ?thesis by simp
  next
    case (run r st1)
    have "env_dict (snd (private_expand (expand n) key (st\<lparr>expandset := insert key (expandset st)\<rparr>)))
            = env_dict st \<and> (False \<longrightarrow> fst (private_expand (expand n) key (st\<lparr>expandset := insert key (expandset st)\<rparr>)) \<noteq> NoFuel)"
      by (rule private_expand_inv [where I = "\<lambda>s. env_dict s = env_dict st"])
         (simp_all add: Suc.IH)
    with run show ?thesis by (cases r) simp_all
  qed
qed

lemma expand_expandset_mono: "S \<subseteq> expandset st \<Longrightarrow> S \<subseteq> expandset (snd (expand n key st))"
proof (induction n arbitrary: key st)
  case 0
  then show ?case by simp
next
  case (Suc n)
  show ?case
  proof (cases rule: expand_Suc_cases [of st key n])
    case (hit v)
    with Suc.prems show ?thesis by simp
  next
    case cycle
    with Suc.prems show ?thesis by simp
  next
    case (run r st1)
    have "S \<subseteq> expandset (snd (private_expand (expand n) key (st\<lparr>expandset := insert key (expandset st)\<rparr>)))
            \<and> (False \<longrightarrow> fst (private_expand (expand n) key (st\<lparr>expandset := insert key (expandset st)\<rparr>)) \<noteq> NoFuel)"
      using Suc.prems
      by (intro private_expand_inv [where I = "\<lambda>s. S \<subseteq> expandset s"])
         (auto simp: Suc.IH)
    with run Suc.prems show ?thesis by (cases r) auto
  qed
qed

lemma expand_cache_expandset_disjoint:
  "dom (cache st) \<inter> expandset st = {} \<Longrightarrow>
   dom (cache (snd (expand n key st))) \<inter> expandset (snd (expand n key st)) = {}"
proof (induction n arbitrary: key st)
  case 0
  then show ?case by simp
next
  case (Suc n)
  show ?case
  proof (cases rule: expand_Suc_cases [of st key n])
    case (hit v)
    with Suc.prems show ?thesis by simp
  next
    case cycle
    with Suc.prems show ?thesis by simp
  next
    case (run r st1)
    let ?I = "\<lambda>s. dom (cache s) \<inter> expandset s = {}"
    have "?I (snd (private_expand (expand n) key (st\<lparr>expandset := insert key (expandset st)\<rparr>)))
            \<and> (False \<longrightarrow> fst (private_expand (expand n) key (st\<lparr>expandset := insert key (expandset st)\<rparr>)) \<noteq> NoFuel)"
    proof (rule private_expand_inv [where I = ?I])
      show "?I (st\<lparr>expandset := insert key (expandset st)\<rparr>)"
        using Suc.prems run(1) by auto
    qed (simp add: Suc.IH)
    with run show ?thesis by (cases r) (auto simp: disjoint_iff dom_def split: if_splits)
  qed
qed

lemma expand_enough_fuel:
  "card (fst ` set (env_dict st) - expandset st) < n \<Longrightarrow> fst (expand n key st) \<noteq> NoFuel"
proof (induction n arbitrary: key st)
  case 0
  then show ?case by simp
next
  case (Suc n)
  show ?case
  proof (cases rule: expand_Suc_cases [of st key n])
    case (hit v)
    then show ?thesis by simp
  next
    case cycle
    then show ?thesis by simp
  next
    case (run r st1)
    let ?st0 = "st\<lparr>expandset := insert key (expandset st)\<rparr>"
    show ?thesis
    proof (cases "map_of (env_dict st) key")
      case None
      with run show ?thesis by (auto simp: private_expand_def)
    next
      case (Some v)
      then have key: "key \<in> fst ` set (env_dict st)"
        by (metis map_of_eq_None_iff option.distinct(1))
      let ?K = "fst ` set (env_dict st)"
      let ?I = "\<lambda>s. env_dict s = env_dict st \<and> insert key (expandset st) \<subseteq> expandset s"
      have fin: "finite (?K - expandset st)" by simp
      have "key \<in> ?K - expandset st" using key run(2) by simp
      then have "card (?K - expandset st - {key}) < card (?K - expandset st)"
        using fin by (meson card_Diff1_less)
      moreover have "?K - insert key (expandset st) = ?K - expandset st - {key}" by auto
      ultimately have small: "card (?K - insert key (expandset st)) < n"
        using Suc.prems by simp
      have cb: "\<And>k s. ?I s \<Longrightarrow> ?I (snd (expand n k s)) \<and> (True \<longrightarrow> fst (expand n k s) \<noteq> NoFuel)"
      proof -
        fix k and s :: expander
        assume s: "?I s"
        then have "?K - expandset s \<subseteq> ?K - insert key (expandset st)" by auto
        then have "card (?K - expandset s) \<le> card (?K - insert key (expandset st))"
          by (intro card_mono) simp_all
        with small s have "card (fst ` set (env_dict s) - expandset s) < n" by simp
        then have "fst (expand n k s) \<noteq> NoFuel" by (rule Suc.IH)
        moreover have "?I (snd (expand n k s))"
          using s expand_env_dict [of n k s] expand_expandset_mono [of "insert key (expandset st)" s n k]
          by simp
        ultimately show "?I (snd (expand n k s)) \<and> (True \<longrightarrow> fst (expand n k s) \<noteq> NoFuel)"
          by simp
      qed
      have "?I ?st0" by simp
      from private_expand_inv [where I = ?I and b = True and ex = "expand n", OF cb this, of key] run(3)
      have "r \<noteq> NoFuel" by simp
      with run show ?thesis by (cases r) simp_all
    qed
  qed
qed

lemma resolve_returns_or_raises: "fst (resolve key st) \<noteq> NoFuel"
proof -
  have "card (fst ` set (env_dict st) - expandset st) \<le> card (fst ` set (env_dict st))"
    by (intro card_mono) auto
  also have "\<dots> \<le> length (env_dict st)"
    by (metis card_image_le card_length le_trans List.finite_set)
  finally show ?thesis
    unfolding resolve_def by (intro expand_enough_fuel) simp
qed

subsection \<open>More fuel never changes a result\<close>

lemma expandconditional_fuel:
  assumes ex: "\<And>k s. fst (ex k s) \<noteq> NoFuel \<Longrightarrow> ex' k s = ex k s"
    and r: "fst (expandconditional ex key st) \<noteq> NoFuel"
  shows "expandconditional ex' key st = expandconditional ex key st"
proof -
  let ?c = "strip (fst (split_once (CHR ''?'') key))"
  obtain r1 st1 where c: "ex ?c st = (r1, st1)" by (cases "ex ?c st")
  show ?thesis
  proof (cases "CHR ''?'' \<in> set key \<and> CHR '':'' \<in> set (snd (split_once (CHR ''?'') key))")
    case False
    then show ?thesis by (auto simp: expandconditional_def Let_def split_def)
  next
    case True
    with r c have r1: "r1 \<noteq> NoFuel"
      by (auto simp: expandconditional_def Let_def split_def)
    with c ex [of ?c st] have c': "ex' ?c st = (r1, st1)" by simp
    from True r c c' r1 show ?thesis
      by (cases r1) (auto simp: expandconditional_def Let_def split_def ex)
  qed
qed

lemma replacematch_fuel:
  assumes ex: "\<And>k s. fst (ex k s) \<noteq> NoFuel \<Longrightarrow> ex' k s = ex k s"
    and r: "fst (replacematch ex t st) \<noteq> NoFuel"
  shows "replacematch ex' t st = replacematch ex t st"
  using r expandconditional_fuel [of ex ex', OF ex]
  by (cases t) (auto simp: Let_def ex)

lemma sub_fuel:
  assumes ex: "\<And>k s. fst (ex k s) \<noteq> NoFuel \<Longrightarrow> ex' k s = ex k s"
  shows "fst (sub ex ts st) \<noteq> NoFuel \<Longrightarrow> sub ex' ts st = sub ex ts st"
proof (induction ts arbitrary: st)
  case Nil
  show ?case by simp
next
  case (Cons t ts)
  show ?case
  proof (cases t)
    case (Text s)
    obtain r st1 where ts: "sub ex ts st = (r, st1)" by (cases "sub ex ts st")
    with Cons.prems Text have "r \<noteq> NoFuel" by auto
    with ts Cons.IH [of st] have "sub ex' ts st = (r, st1)" by simp
    with Text ts show ?thesis by simp
  next
    case (Match m)
    obtain r st1 where t: "replacematch ex m st = (r, st1)" by (cases "replacematch ex m st")
    with Cons.prems Match have r: "r \<noteq> NoFuel" by auto
    with t replacematch_fuel [of ex ex' m st, OF ex] have t': "replacematch ex' m st = (r, st1)"
      by simp
    show ?thesis
    proof (cases r)
      case (Return v)
      obtain r2 st2 where ts: "sub ex ts st1 = (r2, st2)" by (cases "sub ex ts st1")
      with Cons.prems Match t Return have "r2 \<noteq> NoFuel" by auto
      with ts Cons.IH [of st1] have "sub ex' ts st1 = (r2, st2)" by simp
      with Match t t' ts Return show ?thesis by simp
    next
      case (Raise e)
      with Match t t' show ?thesis by simp
    next
      case NoFuel
      with r show ?thesis by simp
    qed
  qed
qed

lemma private_expandvalue_fuel:
  "(\<And>k s. fst (ex k s) \<noteq> NoFuel \<Longrightarrow> ex' k s = ex k s) \<Longrightarrow>
     fst (private_expandvalue ex v st) \<noteq> NoFuel \<Longrightarrow>
     private_expandvalue ex' v st = private_expandvalue ex v st"
  "(\<And>k s. fst (ex k s) \<noteq> NoFuel \<Longrightarrow> ex' k s = ex k s) \<Longrightarrow>
     fst (private_expandvalues ex vs st) \<noteq> NoFuel \<Longrightarrow>
     private_expandvalues ex' vs st = private_expandvalues ex vs st"
proof (induction ex v st and ex vs st rule: private_expandvalue_private_expandvalues.induct)
  case (1 ex s st)
  obtain r st1 where t: "sub ex (tokenize s) st = (r, st1)" by (cases "sub ex (tokenize s) st")
  with 1(2) have "r \<noteq> NoFuel" by auto
  with t sub_fuel [of ex ex' "tokenize s" st, OF 1(1)] have "sub ex' (tokenize s) st = (r, st1)"
    by simp
  with t show ?case by simp
next
  case (2 ex xs st)
  obtain r st1 where t: "private_expandvalues ex xs st = (r, st1)"
    by (cases "private_expandvalues ex xs st")
  with 2(3) have "r \<noteq> NoFuel" by auto
  with t 2(1) [OF 2(2)] have "private_expandvalues ex' xs st = (r, st1)" by simp
  with t show ?case by simp
next
  case (8 ex x xs st)
  obtain r st1 where t: "private_expandvalue ex x st = (r, st1)"
    by (cases "private_expandvalue ex x st")
  with 8(4) have r: "r \<noteq> NoFuel" by auto
  with t 8(1) [OF 8(3)] have t': "private_expandvalue ex' x st = (r, st1)" by simp
  show ?case
  proof (cases r)
    case (Return y)
    obtain r2 st2 where t2: "private_expandvalues ex xs st1 = (r2, st2)"
      by (cases "private_expandvalues ex xs st1")
    with 8(4) t Return have "r2 \<noteq> NoFuel" by auto
    with t2 8(2) [OF t [symmetric] Return 8(3)] have "private_expandvalues ex' xs st1 = (r2, st2)"
      by simp
    with t t' t2 Return show ?thesis by simp
  next
    case (Raise e)
    with t t' show ?thesis by simp
  next
    case NoFuel
    with r show ?thesis by simp
  qed
qed simp_all

lemma private_expand_fuel:
  assumes ex: "\<And>k s. fst (ex k s) \<noteq> NoFuel \<Longrightarrow> ex' k s = ex k s"
    and r: "fst (private_expand ex key st) \<noteq> NoFuel"
  shows "private_expand ex' key st = private_expand ex key st"
  using r private_expandvalue_fuel(1) [of ex ex', OF ex]
  by (auto simp: private_expand_def split: option.splits)

lemma expand_fuel_Suc: "fst (expand n key st) \<noteq> NoFuel \<Longrightarrow> expand (Suc n) key st = expand n key st"
proof (induction n arbitrary: key st)
  case 0
  then show ?case by simp
next
  case (Suc n)
  show ?case
  proof (cases rule: expand_Suc_cases [of st key n])
    case (hit v)
    then show ?thesis by simp
  next
    case cycle
    then show ?thesis by simp
  next
    case (run r st1)
    with Suc.prems have "r \<noteq> NoFuel" by (cases r) simp_all
    with run(3) private_expand_fuel [of "expand n" "expand (Suc n)" key
        "st\<lparr>expandset := insert key (expandset st)\<rparr>"] Suc.IH
    have "private_expand (expand (Suc n)) key (st\<lparr>expandset := insert key (expandset st)\<rparr>) = (r, st1)"
      by simp
    with run show ?thesis by (cases r) simp_all
  qed
qed

lemma expand_fuel_add: "fst (expand n key st) \<noteq> NoFuel \<Longrightarrow> expand (n + m) key st = expand n key st"
proof (induction m)
  case 0
  show ?case by simp
next
  case (Suc m)
  then show ?case using expand_fuel_Suc [of "n + m" key st] by simp
qed

lemma resolve_fuel_independent:
  "length (env_dict st) < n \<Longrightarrow> expand n key st = resolve key st"
  using expand_fuel_add [of "Suc (length (env_dict st))" key st "n - Suc (length (env_dict st))"]
    resolve_returns_or_raises [of key st]
  by (simp add: resolve_def)

subsection \<open>Conditional expressions\<close>





subsection \<open>Cycle detection and termination\<close>

lemma tokenize_braced:
  assumes "CHR ''}'' \<notin> set b"
  shows "tokenize (''${'' @ b @ ''}'') = [Match (Parens b)]"
proof -
  have "takeWhile (\<lambda>x. x \<noteq> CHR ''}'') (b @ ''}'') = b"
    using assms by (auto simp: takeWhile_tail)
  moreover have "dropWhile (\<lambda>x. x \<noteq> CHR ''}'') (b @ ''}'') = ''}''"
  proof -
    have "\<And>x. x \<in> set b \<Longrightarrow> x \<noteq> CHR ''}''" using assms by blast
    then show ?thesis by (simp add: dropWhile_append2)
  qed
  ultimately show ?thesis
    by (simp add: is_ident_start_def)
qed

lemma expand_mutual_reference:
  assumes a: "map_of env a = Some (VStr (''${'' @ b @ ''}''))"
    and b: "map_of env b = Some (VStr (''${'' @ a @ ''}''))"
    and pa: "strip a = a" "CHR ''?'' \<notin> set a" "CHR ''}'' \<notin> set a"
    and pb: "strip b = b" "CHR ''?'' \<notin> set b" "CHR ''}'' \<notin> set b"
  shows "fst (expand (Suc (Suc (Suc m))) a (new_expander env)) = Raise (ValueError_recursive a)"
proof -
  have ta: "tokenize (CHR ''$'' # CHR ''{'' # a @ ''}'') = [Match (Parens a)]"
    using tokenize_braced [OF pa(3)] by simp
  have tb: "tokenize (CHR ''$'' # CHR ''{'' # b @ ''}'') = [Match (Parens b)]"
    using tokenize_braced [OF pb(3)] by simp
  note [simp del] = tokenize.simps
  show ?thesis
    using a b pa pb
    by (cases "a = b")
       (simp_all add: new_expander_def private_expand_def ta tb)
qed

lemma resolve_Suc: "resolve key st = expand (Suc (length (env_dict st))) key st"
  by (simp add: resolve_def)


lemma in_progress_key_raises:
  "key \<in> expandset st \<Longrightarrow> cache st key = None \<Longrightarrow>
     resolve key st = (Raise (ValueError_recursive key), st)"
  by (simp add: resolve_def)

text \<open>
  Claim C4. In every environment where \<open>a\<close> is \<^verbatim>\<open>${b}\<close> and \<open>b\<close> is
  \<^verbatim>\<open>${a}\<close> (both names trimmed, without question mark or closing brace), resolving
  \<open>a\<close> on a new expander fails with the recursive-expansion error. In every state
  whose cache and in-progress set are disjoint (which \<open>expand\<close> preserves, see
  \<open>expand_cache_expandset_disjoint\<close>), resolving a key of the in-progress set fails
  with the recursive-expansion error and changes nothing. And every call of the resolver
  returns or raises: it never runs out of fuel.
\<close>

theorem resolve_cycle_terminates:
  "(\<forall>env a b.
      map_of env a = Some (VStr (''${'' @ b @ ''}'')) \<longrightarrow>
      map_of env b = Some (VStr (''${'' @ a @ ''}'')) \<longrightarrow>
      strip a = a \<longrightarrow> CHR ''?'' \<notin> set a \<longrightarrow> CHR ''}'' \<notin> set a \<longrightarrow>
      strip b = b \<longrightarrow> CHR ''?'' \<notin> set b \<longrightarrow> CHR ''}'' \<notin> set b \<longrightarrow>
      fst (resolve a (new_expander env)) = Raise (ValueError_recursive a))
   \<and> (\<forall>key st. dom (cache st) \<inter> expandset st = {} \<longrightarrow> key \<in> expandset st \<longrightarrow>
         resolve key st = (Raise (ValueError_recursive key), st))
   \<and> (\<forall>key st. fst (resolve key st) \<noteq> NoFuel)"
proof (intro conjI allI impI)
  fix env a b
  assume a: "map_of env a = Some (VStr (''${'' @ b @ ''}''))"
    and b: "map_of env b = Some (VStr (''${'' @ a @ ''}''))"
    and pa: "strip a = a" "CHR ''?'' \<notin> set a" "CHR ''}'' \<notin> set a"
    and pb: "strip b = b" "CHR ''?'' \<notin> set b" "CHR ''}'' \<notin> set b"
  have "expand (Suc (Suc (Suc (length env)))) a (new_expander env) = resolve a (new_expander env)"
    by (rule resolve_fuel_independent) (simp add: new_expander_def)
  with expand_mutual_reference [OF a b pa pb, of "length env"]
  show "fst (resolve a (new_expander env)) = Raise (ValueError_recursive a)" by simp
next
  fix key and st :: expander
  assume "dom (cache st) \<inter> expandset st = {}" and "key \<in> expandset st"
  then have "cache st key = None" by auto
  with \<open>key \<in> expandset st\<close>
  show "resolve key st = (Raise (ValueError_recursive key), st)"
    by (rule in_progress_key_raises)
next
  fix key and st :: expander
  show "fst (resolve key st) \<noteq> NoFuel" by (rule resolve_returns_or_raises)
qed

text \<open>The environment \<^verbatim>\<open>{a: "${b}", b: "${a}"}\<close>, resolved at either key.\<close>

theorem resolve_cycle_terminates_witness:
  "map_of [(''a'', VStr ''${b}''), (''b'', VStr ''${a}'')] ''a'' = Some (VStr (''${'' @ ''b'' @ ''}'')) \<and>
   map_of [(''a'', VStr ''${b}''), (''b'', VStr ''${a}'')] ''b'' = Some (VStr (''${'' @ ''a'' @ ''}'')) \<and>
   strip ''a'' = ''a'' \<and> strip ''b'' = ''b'' \<and>
   fst (resolve ''a'' (new_expander [(''a'', VStr ''${b}''), (''b'', VStr ''${a}'')]))
     = Raise (ValueError_recursive ''a'') \<and>
   fst (resolve ''b'' (new_expander [(''a'', VStr ''${b}''), (''b'', VStr ''${a}'')]))
     = Raise (ValueError_recursive ''b'') \<and>
   dom (cache \<lparr>env_dict = [], cache = Map.empty, expandset = {''k''}\<rparr>)
     \<inter> expandset \<lparr>env_dict = [], cache = Map.empty, expandset = {''k''}\<rparr> = {} \<and>
   ''k'' \<in> expandset \<lparr>env_dict = [], cache = Map.empty, expandset = {''k''}\<rparr> \<and>
   fst (resolve ''k'' \<lparr>env_dict = [], cache = Map.empty, expandset = {''k''}\<rparr>)
     = Raise (ValueError_recursive ''k'')"
proof -
  let ?env = "[(''a'', VStr ''${b}''), (''b'', VStr ''${a}'')]"
  let ?st = "\<lparr>env_dict = [], cache = Map.empty, expandset = {''k''}\<rparr>"
  have a: "map_of ?env ''a'' = Some (VStr (''${'' @ ''b'' @ ''}''))" by simp
  have b: "map_of ?env ''b'' = Some (VStr (''${'' @ ''a'' @ ''}''))" by simp
  have sa: "strip ''a'' = ''a''" by (simp add: strip_def is_space_def)
  have sb: "strip ''b'' = ''b''" by (simp add: strip_def is_space_def)
  have qa: "CHR ''?'' \<notin> set ''a''" "CHR ''}'' \<notin> set ''a''" by simp_all
  have qb: "CHR ''?'' \<notin> set ''b''" "CHR ''}'' \<notin> set ''b''" by simp_all
  note T = resolve_cycle_terminates
  have ra: "fst (resolve ''a'' (new_expander ?env)) = Raise (ValueError_recursive ''a'')"
    using T [THEN conjunct1, rule_format, OF a b sa qa sb qb] .
  have rb: "fst (resolve ''b'' (new_expander ?env)) = Raise (ValueError_recursive ''b'')"
    using T [THEN conjunct1, rule_format, OF b a sb qb sa qa] .
  have d: "dom (cache ?st) \<inter> expandset ?st = {}" by simp
  have k: "''k'' \<in> expandset ?st" by simp
  have rk: "fst (resolve ''k'' ?st) = Raise (ValueError_recursive ''k'')"
    using T [THEN conjunct2, THEN conjunct1, rule_format, OF d k] by simp
  from a b sa sb ra rb d k rk show ?thesis by blast
qed

subsection \<open>A failed resolution\<close>

lemma expand_keeps_in_progress:
  "key \<in> expandset st \<and> cache st key = None \<Longrightarrow>
     key \<in> expandset (snd (expand n k st)) \<and> cache (snd (expand n k st)) key = None"
proof (induction n arbitrary: k st)
  case 0
  then show ?case by simp
next
  case (Suc n)
  show ?case
  proof (cases rule: expand_Suc_cases [of st k n])
    case (hit v)
    with Suc.prems show ?thesis by simp
  next
    case cycle
    with Suc.prems show ?thesis by simp
  next
    case (run r st1)
    let ?I = "\<lambda>s. key \<in> expandset s \<and> cache s key = None"
    let ?st0 = "st\<lparr>expandset := insert k (expandset st)\<rparr>"
    have "?I (snd (private_expand (expand n) k ?st0))
            \<and> (False \<longrightarrow> fst (private_expand (expand n) k ?st0) \<noteq> NoFuel)"
    proof (rule private_expand_inv [where I = ?I])
      show "?I ?st0" using Suc.prems by simp
    qed (simp add: Suc.IH)
    with run(3) have st1: "?I st1" by simp
    from run(2) Suc.prems have "k \<noteq> key" by auto
    with run st1 show ?thesis by (cases r) auto
  qed
qed

lemma resolve_env_dict: "env_dict (snd (resolve key st)) = env_dict st"
  unfolding resolve_def by (rule expand_env_dict)

text \<open>
  Claim C5. The claim asks that a failed resolution leaves the expander as if the attempt
  had not happened. The code stores nothing in the cache on failure, but it also leaves the
  key in the in-progress set, since the exception passes the statement that removes it:
  every later resolution of the key raises the recursive-expansion error at once, without
  another attempt.
\<close>

theorem failed_resolution_not_retried:
  assumes fails: "fst (resolve key st) = Raise e" and fresh: "cache st key = None"
  shows "cache (snd (resolve key st)) key = None
       \<and> key \<in> expandset (snd (resolve key st))
       \<and> resolve key (snd (resolve key st))
           = (Raise (ValueError_recursive key), snd (resolve key st))"
proof -
  let ?n = "length (env_dict st)"
  have inprog: "key \<in> expandset (snd (resolve key st)) \<and> cache (snd (resolve key st)) key = None"
  proof (cases rule: expand_Suc_cases [of st key ?n])
    case (hit v)
    with fresh show ?thesis by simp
  next
    case cycle
    then show ?thesis by (simp add: resolve_def)
  next
    case (run r st1)
    let ?I = "\<lambda>s. key \<in> expandset s \<and> cache s key = None"
    let ?st0 = "st\<lparr>expandset := insert key (expandset st)\<rparr>"
    have "?I (snd (private_expand (expand ?n) key ?st0))
            \<and> (False \<longrightarrow> fst (private_expand (expand ?n) key ?st0) \<noteq> NoFuel)"
    proof (rule private_expand_inv [where I = ?I])
      show "?I ?st0" using fresh by simp
    next
      fix k and s :: expander
      assume "?I s"
      then show "?I (snd (expand ?n k s)) \<and> (False \<longrightarrow> fst (expand ?n k s) \<noteq> NoFuel)"
        using expand_keeps_in_progress [of key s ?n k] by simp
    qed
    with run(3) have st1: "?I st1" by simp
    from fails run(4) have "r = Raise e" by (cases r) (simp_all add: resolve_def)
    with run(4) st1 show ?thesis by (simp add: resolve_def)
  qed
  then show ?thesis using in_progress_key_raises [of key "snd (resolve key st)"] by simp
qed

text \<open>
  With \<^verbatim>\<open>{a: "${b}"}\<close> the first resolution of \<^verbatim>\<open>a\<close> raises the undefined-key
  error for \<^verbatim>\<open>b\<close>; the second, on the unchanged environment, the
  recursive-expansion error for \<^verbatim>\<open>a\<close>.
\<close>

theorem failed_resolution_not_retried_witness:
  "fst (resolve ''a'' (new_expander [(''a'', VStr ''${b}'')])) = Raise (KeyError_undefined ''b'') \<and>
   cache (new_expander [(''a'', VStr ''${b}'')]) ''a'' = None \<and>
   env_dict (snd (resolve ''a'' (new_expander [(''a'', VStr ''${b}'')]))) = [(''a'', VStr ''${b}'')] \<and>
   fst (resolve ''a'' (snd (resolve ''a'' (new_expander [(''a'', VStr ''${b}'')]))))
     = Raise (ValueError_recursive ''a'')"
proof -
  let ?st = "new_expander [(''a'', VStr ''${b}'')]"
  have h1: "fst (resolve ''a'' ?st) = Raise (KeyError_undefined ''b'')"
    by code_simp
  have h2: "cache ?st ''a'' = None" by (simp add: new_expander_def)
  have h3: "env_dict (snd (resolve ''a'' ?st)) = [(''a'', VStr ''${b}'')]"
    by (simp add: resolve_env_dict new_expander_def)
  have "resolve ''a'' (snd (resolve ''a'' ?st))
          = (Raise (ValueError_recursive ''a''), snd (resolve ''a'' ?st))"
    using failed_resolution_not_retried [OF h1 h2] by blast
  then have "fst (resolve ''a'' (snd (resolve ''a'' ?st))) = Raise (ValueError_recursive ''a'')"
    by simp
  with h1 h2 h3 show ?thesis by blast
qed

subsection \<open>Structural expansion\<close>

text \<open>
  Claim C6. The claim asks that each value of a mapping is resolved. The mapping branch of
  \<^verbatim>\<open>_expandvalue\<close> calls the missing method \<^verbatim>\<open>self.expandvalue\<close>, so
  resolving a key whose value is a non-empty mapping raises \<^verbatim>\<open>AttributeError\<close>.
\<close>

theorem mapping_value_raises_AttributeError:
  assumes "map_of (env_dict st) key = Some (VDict kvs)" and "kvs \<noteq> []"
    and "cache st key = None" and "key \<notin> expandset st"
  shows "fst (resolve key st) = Raise AttributeError"
  using assms by (simp add: resolve_def private_expand_def)

text \<open>The environment \<^verbatim>\<open>{k: {x: "${v}"}, v: "1"}\<close>, resolved at \<^verbatim>\<open>k\<close>.\<close>

theorem mapping_value_raises_AttributeError_witness:
  "map_of (env_dict (new_expander [(''k'', VDict [(''x'', VStr ''${v}'')]), (''v'', VStr ''1'')])) ''k''
     = Some (VDict [(''x'', VStr ''${v}'')]) \<and>
   [(''x'', VStr ''${v}'')] \<noteq> [] \<and>
   fst (resolve ''k'' (new_expander [(''k'', VDict [(''x'', VStr ''${v}'')]), (''v'', VStr ''1'')]))
     = Raise AttributeError"
proof -
  let ?st = "new_expander [(''k'', VDict [(''x'', VStr ''${v}'')]), (''v'', VStr ''1'')]"
  have h1: "map_of (env_dict ?st) ''k'' = Some (VDict [(''x'', VStr ''${v}'')])"
    by (simp add: new_expander_def)
  have h2: "[(''x'', VStr ''${v}'')] \<noteq> []" by simp
  have h3: "cache ?st ''k'' = None" by (simp add: new_expander_def)
  have h4: "''k'' \<notin> expandset ?st" by (simp add: new_expander_def)
  from mapping_value_raises_AttributeError [OF h1 h2 h3 h4] h1 h2 show ?thesis by blast
qed

section \<open>Properties of create_dependency\<close>

lemma merged_lookup:
  "map_of (AList.merge (AList.merge (AList.merge (AList.merge [] base) defaults) defn) overrides) k
     = layered_lookup base defaults defn overrides k"
  by (simp add: merge_conv' layered_lookup_def map_add_def split: option.splits)

text \<open>
  Claim C9. Whenever \<^verbatim>\<open>create_dependency\<close> builds a record (the type, if the
  definition has one, is in the table; the merged \<^verbatim>\<open>ignore\<close> is not true; the merged
  \<^verbatim>\<open>name\<close> is there and can be a key), the environment of the record gives, for
  every key, the override's value if the override has the key, else the definition's, else the
  type defaults', else the base environment's; its cache and in-progress set are empty; and
  \<^verbatim>\<open>has_overrides\<close> is true exactly when the override is not empty.
\<close>

theorem create_dependency_layers:
  assumes ty: "(case map_of defn ''type'' of None \<Rightarrow> Inr [] | Some t \<Rightarrow> types_getitem t) = Inr defaults"
    and ign: "\<not> (case layered_lookup (base_env self) defaults defn overrides ''ignore'' of
                  None \<Rightarrow> False | Some v \<Rightarrow> py_bool v)"
    and nm: "layered_lookup (base_env self) defaults defn overrides ''name'' = Some name"
    and hs: "hashable name"
  shows "\<exists>d. create_dependency self defn overrides
               = (Return (), self\<lparr>dependencies := dict_setitem name d (dependencies self)\<rparr>)
           \<and> (\<forall>k. map_of (env_dict (expander d)) k
                    = layered_lookup (base_env self) defaults defn overrides k)
           \<and> cache (expander d) = Map.empty \<and> expandset (expander d) = {}
           \<and> has_overrides d = (overrides \<noteq> [])"
proof -
  define env where
    "env = AList.merge (AList.merge (AList.merge (AList.merge [] (base_env self)) defaults) defn) overrides"
  define d where "d = \<lparr>expander = new_expander env, has_overrides = (overrides \<noteq> [])\<rparr>"
  have look: "map_of env k = layered_lookup (base_env self) defaults defn overrides k" for k
    unfolding env_def by (rule merged_lookup)
  have "create_dependency self defn overrides
          = (Return (), self\<lparr>dependencies := dict_setitem name d (dependencies self)\<rparr>)"
  proof (cases "map_of defn ''type''")
    case None
    with ty have "defaults = []" by simp
    with None ign nm hs look [of "''ignore''"] look [of "''name''"] show ?thesis
      by (simp add: create_dependency_def Let_def env_def d_def)
  next
    case (Some t)
    with ty have "types_getitem t = Inr defaults" by simp
    with Some ign nm hs look [of "''ignore''"] look [of "''name''"] show ?thesis
      by (simp add: create_dependency_def Let_def env_def d_def)
  qed
  moreover have "\<forall>k. map_of (env_dict (expander d)) k
                    = layered_lookup (base_env self) defaults defn overrides k"
    by (simp add: d_def new_expander_def look)
  moreover have "cache (expander d) = Map.empty \<and> expandset (expander d) = {}
           \<and> has_overrides d = (overrides \<noteq> [])"
    by (simp add: d_def new_expander_def)
  ultimately show ?thesis by blast
qed

text \<open>
  The example of the specification: definition \<^verbatim>\<open>A\<close> of type \<^verbatim>\<open>external\<close>
  with archive \<^verbatim>\<open>a.zip\<close>, override with \<^verbatim>\<open>a2.zip\<close>.
\<close>

theorem create_dependency_layers_witness:
  "\<exists>d. create_dependency \<lparr>base_env = [(''platform'', VStr ''Linux-x64'')], dependencies = []\<rparr>
          [(''name'', VStr ''A''), (''type'', VStr ''external''), (''archive-filename'', VStr ''a.zip'')]
          [(''name'', VStr ''A''), (''archive-filename'', VStr ''a2.zip'')]
        = (Return (),
           \<lparr>base_env = [(''platform'', VStr ''Linux-x64'')], dependencies = [(VStr ''A'', d)]\<rparr>)
      \<and> map_of (env_dict (expander d)) ''archive-filename'' = Some (VStr ''a2.zip'')
      \<and> map_of (env_dict (expander d)) ''source-git'' = Some VNone
      \<and> map_of (env_dict (expander d)) ''platform'' = Some (VStr ''Linux-x64'')
      \<and> has_overrides d"
proof -
  let ?self = "\<lparr>base_env = [(''platform'', VStr ''Linux-x64'')], dependencies = []\<rparr>"
  let ?defn = "[(''name'', VStr ''A''), (''type'', VStr ''external''), (''archive-filename'', VStr ''a.zip'')]"
  let ?ov = "[(''name'', VStr ''A''), (''archive-filename'', VStr ''a2.zip'')]"
  let ?defaults = "[(''binary-repo'', VStr ''http://openhome.org/releases/artifacts''),
         (''source-git'', VNone),
         (''any-platform'', VStr ''AnyPlatform''),
         (''platform-specific'', VBool True),
         (''archive-platform'', VStr ''${platform-specific?platform:any-platform}''),
         (''archive-path'', VStr ''${binary-repo}/${archive-platform}/${archive-filename}''),
         (''dest'', VStr ''dependencies/${archive-platform}/''),
         (''configure-args'', VList []),
         (''strip-archive-dirs'', VNum 0)]"
  have ty: "(case map_of ?defn ''type'' of None \<Rightarrow> Inr [] | Some t \<Rightarrow> types_getitem t) = Inr ?defaults"
    by (simp add: types_getitem_def DEPENDENCY_TYPES_def)
  have ign: "\<not> (case layered_lookup (base_env ?self) ?defaults ?defn ?ov ''ignore'' of
                  None \<Rightarrow> False | Some v \<Rightarrow> py_bool v)"
    by (simp add: layered_lookup_def)
  have nm: "layered_lookup (base_env ?self) ?defaults ?defn ?ov ''name'' = Some (VStr ''A'')"
    by (simp add: layered_lookup_def)
  have hs: "hashable (VStr ''A'')" by simp
  from create_dependency_layers [OF ty ign nm hs] obtain d where
    d: "create_dependency ?self ?defn ?ov
          = (Return (), ?self\<lparr>dependencies := dict_setitem (VStr ''A'') d (dependencies ?self)\<rparr>)"
       "\<forall>k. map_of (env_dict (expander d)) k = layered_lookup (base_env ?self) ?defaults ?defn ?ov k"
       "has_overrides d = (?ov \<noteq> [])"
    by blast
  show ?thesis
    using d by (intro exI [of _ d]) (simp add: layered_lookup_def)
qed

text \<open>
  Claim C10. When the definition has a \<^verbatim>\<open>type\<close> that is none of
  \<^verbatim>\<open>ignore\<close>, \<^verbatim>\<open>openhome\<close>, \<^verbatim>\<open>external\<close>, the subscript of the table
  of types raises, \<^verbatim>\<open>create_dependency\<close> raises that very error, whatever the rest of
  the definition and the override hold, and the collection is unchanged. The error is the
  \<^verbatim>\<open>KeyError\<close> of the type; only for a type value that cannot be a key at all (a list
  or a mapping) is it the \<^verbatim>\<open>TypeError\<close> of the same subscript.
\<close>

theorem unknown_type_raises_lookup_error:
  assumes "map_of defn ''type'' = Some t"
    and "t \<notin> {VStr ''ignore'', VStr ''openhome'', VStr ''external''}"
  shows "\<exists>e. types_getitem t = Inl e
           \<and> create_dependency self defn overrides = (Raise e, self)
           \<and> (hashable t \<longrightarrow> e = KeyError t)"
proof -
  have "\<exists>e. types_getitem t = Inl e \<and> (hashable t \<longrightarrow> e = KeyError t)"
    using assms(2)
    by (cases t) (auto simp: types_getitem_def DEPENDENCY_TYPES_def split: option.splits)
  then obtain e where e: "types_getitem t = Inl e" "hashable t \<longrightarrow> e = KeyError t" by blast
  with assms(1) have "create_dependency self defn overrides = (Raise e, self)"
    by (simp add: create_dependency_def)
  with e show ?thesis by blast
qed

text \<open>A definition of type \<^verbatim>\<open>internal\<close>.\<close>

theorem unknown_type_raises_lookup_error_witness:
  "map_of [(''name'', VStr ''A''), (''type'', VStr ''internal'')] ''type'' = Some (VStr ''internal'')
   \<and> VStr ''internal'' \<notin> {VStr ''ignore'', VStr ''openhome'', VStr ''external''}
   \<and> hashable (VStr ''internal'')
   \<and> create_dependency \<lparr>base_env = [], dependencies = []\<rparr>
        [(''name'', VStr ''A''), (''type'', VStr ''internal'')] []
       = (Raise (KeyError (VStr ''internal'')), \<lparr>base_env = [], dependencies = []\<rparr>)"
proof -
  have h1: "map_of [(''name'', VStr ''A''), (''type'', VStr ''internal'')] ''type''
              = Some (VStr ''internal'')" by simp
  have h2: "VStr ''internal'' \<notin> {VStr ''ignore'', VStr ''openhome'', VStr ''external''}" by simp
  have h3: "hashable (VStr ''internal'')" by simp
  from unknown_type_raises_lookup_error [OF h1 h2, of "\<lparr>base_env = [], dependencies = []\<rparr>" "[]"]
  obtain e where "create_dependency \<lparr>base_env = [], dependencies = []\<rparr>
        [(''name'', VStr ''A''), (''type'', VStr ''internal'')] [] = (Raise e, \<lparr>base_env = [], dependencies = []\<rparr>)"
    and "hashable (VStr ''internal'') \<longrightarrow> e = KeyError (VStr ''internal'')"
    by blast
  with h1 h2 h3 show ?thesis by simp
qed

section \<open>Properties of clean_directories\<close>











section \<open>Properties of Dependency.fetch\<close>

text \<open>
  Claim C7, as amended. For a record whose \<^verbatim>\<open>archive-path\<close>, \<^verbatim>\<open>dest\<close> (a
  string), \<^verbatim>\<open>strip-archive-dirs\<close> and \<^verbatim>\<open>name\<close> resolve: when opening the
  remote stream raises \<^verbatim>\<open>IOError\<close>, \<^verbatim>\<open>fetch\<close> logs the failure and returns
  false, raising nothing; when the stream opens, whatever \<^verbatim>\<open>os.makedirs\<close> gives (no
  error, the directory exists, or any other \<^verbatim>\<open>OSError\<close>) is ignored, and
  \<^verbatim>\<open>fetch\<close> returns true when the extraction that follows succeeds.
\<close>

theorem Dependency_fetch_outcomes:
  assumes "getitem ''archive-path'' r = (Return remote_path, r1)"
    and "getitem ''dest'' r1 = (Return (VStr dest), r2)"
    and "getitem ''strip-archive-dirs'' r2 = (Return strip_dirs, r3)"
    and "getitem ''name'' r3 = (Return name, r4)"
  shows "(\<forall>w2. open_remote sys remote_path (world r4) = (Inl IOError, w2) \<longrightarrow>
            Dependency_fetch sys r
              = (Return False,
                 r4\<lparr>logfile := logfile r4 @ [Log_fetching name remote_path, Log_FAILED],
                    world := w2\<rparr>))
       \<and> (\<forall>archive w2 oserror w3 w4.
            open_remote sys remote_path (world r4) = (Inr archive, w2) \<longrightarrow>
            sys_makedirs sys (sys_abspath sys dest) w2 = (oserror, w3) \<longrightarrow>
            extract_archive sys archive (sys_abspath sys dest) strip_dirs w3 = (None, w4) \<longrightarrow>
            Dependency_fetch sys r
              = (Return True,
                 r4\<lparr>logfile := logfile r4 @ [Log_fetching name remote_path,
                                            Log_unpacking (sys_abspath sys dest), Log_OK],
                    world := w4\<rparr>))"
  using assms
  by (simp add: Dependency_fetch_def bind_def py_abspath_def log_write_def)

lemma getitem_collapse:
  "fst (getitem key r) = Return v \<Longrightarrow> getitem key r = (Return v, snd (getitem key r))"
  by (metis prod.collapse)

text \<open>The example record, fetched in the offline world and in the world that refuses the directory.\<close>

theorem Dependency_fetch_outcomes_witness:
  "\<exists>r1 r2 r3 r4.
     getitem ''archive-path'' example_fetch_run = (Return (VStr ''/srv/a.tar.gz''), r1)
   \<and> getitem ''dest'' r1 = (Return (VStr ''dependencies/AnyPlatform/''), r2)
   \<and> getitem ''strip-archive-dirs'' r2 = (Return (VNum 0), r3)
   \<and> getitem ''name'' r3 = (Return (VStr ''A''), r4)
   \<and> open_remote example_sys_offline (VStr ''/srv/a.tar.gz'') (world r4) = (Inl IOError, ())
   \<and> Dependency_fetch example_sys_offline example_fetch_run
       = (Return False,
          r4\<lparr>logfile := logfile r4 @ [Log_fetching (VStr ''A'') (VStr ''/srv/a.tar.gz''), Log_FAILED],
             world := ()\<rparr>)
   \<and> open_remote example_sys (VStr ''/srv/a.tar.gz'') (world r4)
       = (Inr \<lparr>is_tar = True, entry_names = []\<rparr>, ())
   \<and> sys_makedirs example_sys (sys_abspath example_sys ''dependencies/AnyPlatform/'') ()
       = (Some EACCES, ())
   \<and> Dependency_fetch example_sys example_fetch_run
       = (Return True,
          r4\<lparr>logfile := logfile r4 @ [Log_fetching (VStr ''A'') (VStr ''/srv/a.tar.gz''),
                                     Log_unpacking (sys_abspath example_sys ''dependencies/AnyPlatform/''),
                                     Log_OK],
             world := ()\<rparr>)"
proof -
  define r1 where "r1 = snd (getitem ''archive-path'' example_fetch_run)"
  define r2 where "r2 = snd (getitem ''dest'' r1)"
  define r3 where "r3 = snd (getitem ''strip-archive-dirs'' r2)"
  define r4 where "r4 = snd (getitem ''name'' r3)"
  note ev = example_fetch_run_def getitem_def resolve_def new_expander_def private_expand_def
  have h1: "getitem ''archive-path'' example_fetch_run = (Return (VStr ''/srv/a.tar.gz''), r1)"
    unfolding r1_def by (rule getitem_collapse) (simp add: ev)
  have h2: "getitem ''dest'' r1 = (Return (VStr ''dependencies/AnyPlatform/''), r2)"
    unfolding r2_def by (rule getitem_collapse) (simp add: r1_def ev)
  have h3: "getitem ''strip-archive-dirs'' r2 = (Return (VNum 0), r3)"
    unfolding r3_def by (rule getitem_collapse) (simp add: r2_def r1_def ev)
  have h4: "getitem ''name'' r3 = (Return (VStr ''A''), r4)"
    unfolding r4_def by (rule getitem_collapse) (simp add: r3_def r2_def r1_def ev)
  have w: "world r4 = ()" by simp
  have o1: "open_remote example_sys_offline (VStr ''/srv/a.tar.gz'') (world r4) = (Inl IOError, ())"
    by (simp add: open_remote_def example_sys_offline_def example_sys_def)
  have o2: "open_remote example_sys (VStr ''/srv/a.tar.gz'') (world r4)
              = (Inr \<lparr>is_tar = True, entry_names = []\<rparr>, ())"
    by (simp add: open_remote_def example_sys_def)
  have m: "sys_makedirs example_sys (sys_abspath example_sys ''dependencies/AnyPlatform/'') ()
             = (Some EACCES, ())"
    by (simp add: example_sys_def)
  have x: "extract_archive example_sys \<lparr>is_tar = True, entry_names = []\<rparr>
             (sys_abspath example_sys ''dependencies/AnyPlatform/'') (VNum 0) () = (None, ())"
    by (simp add: extract_archive_def example_sys_def)
  note T1 = Dependency_fetch_outcomes [OF h1 h2 h3 h4, of example_sys_offline,
      THEN conjunct1, rule_format, OF o1]
  note T2 = Dependency_fetch_outcomes [OF h1 h2 h3 h4, of example_sys,
      THEN conjunct2, rule_format, OF o2 m x]
  from h1 h2 h3 h4 o1 o2 m T1 T2 show ?thesis by blast
qed

text \<open>
  The claim as stated asks that a directory-creation failure other than an existing
  directory propagates. In the example world \<^verbatim>\<open>os.makedirs\<close> raises
  \<^verbatim>\<open>OSError\<close> for lack of permission, and \<^verbatim>\<open>fetch\<close> returns true.
\<close>

theorem makedirs_failure_is_ignored:
  "fst (sys_makedirs example_sys (sys_abspath example_sys ''dependencies/AnyPlatform/'') ())
     = Some EACCES
   \<and> fst (Dependency_fetch example_sys example_fetch_run) = Return True"
  by (simp add: example_sys_def example_fetch_run_def Dependency_fetch_def bind_def getitem_def
      resolve_def new_expander_def private_expand_def py_abspath_def log_write_def
      open_remote_def extract_archive_def)


section \<open>Properties of Dependency.checkout\<close>





section \<open>Properties of the batch operations\<close>

subsection \<open>What a resolution leaves in the cache\<close>

lemma resolve_Return_cached:
  "resolve key x = (Return v, x') \<Longrightarrow> cache x' key = Some v"
proof -
  assume a: "resolve key x = (Return v, x')"
  show ?thesis
  proof (cases rule: expand_Suc_cases [of x key "length (env_dict x)"])
    case (hit v')
    with a show ?thesis by (simp add: resolve_def)
  next
    case cycle
    with a show ?thesis by (simp add: resolve_def)
  next
    case (run r st1)
    with a show ?thesis by (cases r) (auto simp: resolve_def)
  qed
qed

lemma expand_cache_mono:
  "cache st k = Some v \<Longrightarrow> cache (snd (expand n key st)) k = Some v"
proof (induction n arbitrary: key st)
  case 0
  then show ?case by simp
next
  case (Suc n)
  show ?case
  proof (cases rule: expand_Suc_cases [of st key n])
    case (hit v')
    with Suc.prems show ?thesis by simp
  next
    case cycle
    with Suc.prems show ?thesis by simp
  next
    case (run r st1)
    let ?I = "\<lambda>s. cache s k = Some v"
    let ?st0 = "st\<lparr>expandset := insert key (expandset st)\<rparr>"
    have "?I (snd (private_expand (expand n) key ?st0))
            \<and> (False \<longrightarrow> fst (private_expand (expand n) key ?st0) \<noteq> NoFuel)"
      by (rule private_expand_inv [where I = ?I]) (simp_all add: Suc.IH Suc.prems)
    with run(3) have st1: "?I st1" by simp
    from run(1) Suc.prems have "key \<noteq> k" by auto
    with run st1 show ?thesis by (cases r) auto
  qed
qed

lemma resolve_cache_mono:
  "cache x k = Some v \<Longrightarrow> cache (snd (resolve key x)) k = Some v"
  unfolding resolve_def by (rule expand_cache_mono)

lemma resolve_cached: "cache x key = Some v \<Longrightarrow> resolve key x = (Return v, x)"
  by (simp add: resolve_def)

lemma getitem_Return:
  assumes "getitem key r = (Return v, r')"
  shows "cache (expander (dep r')) key = Some v" and "logfile r' = logfile r" and "world r' = world r"
  using assms resolve_Return_cached [of key "expander (dep r)" v]
  by (auto simp: getitem_def split: prod.splits)

lemma getitem_cache_mono:
  "cache (expander (dep r)) k = Some v \<Longrightarrow> cache (expander (dep (snd (getitem key r)))) k = Some v"
  using resolve_cache_mono [of "expander (dep r)" k v key]
  by (cases "resolve key (expander (dep r))") (simp add: getitem_def)

lemma getitem_cached:
  "cache (expander (dep r)) key = Some v \<Longrightarrow> getitem key r = (Return v, r)"
  by (simp add: getitem_def resolve_cached)

lemma bind_inv:
  assumes "\<And>s. I s \<Longrightarrow> I (snd (m s))" and "\<And>a s. I s \<Longrightarrow> I (snd (f a s))" and "I s"
  shows "I (snd (bind m f s))"
proof -
  obtain res s1 where m: "m s = (res, s1)" by (cases "m s")
  with assms(1) [OF assms(3)] have "I s1" by simp
  with m assms(2) show ?thesis by (cases res) (simp_all add: bind_def)
qed

lemma bind_Return:
  assumes "bind m f s = (Return b, s')"
  obtains a s1 where "m s = (Return a, s1)" and "f a s1 = (Return b, s')"
proof -
  obtain res s1 where m: "m s = (res, s1)" by (cases "m s")
  with assms that show ?thesis by (cases res) (simp_all add: bind_def)
qed

lemma bind_getitem_inv:
  assumes "\<And>a s. cache (expander (dep s)) k = Some v \<Longrightarrow> cache (expander (dep (snd (f a s)))) k = Some v"
    and "cache (expander (dep s)) k = Some v"
  shows "cache (expander (dep (snd (bind (getitem key) f s)))) k = Some v"
  by (rule bind_inv [where I = "\<lambda>s. cache (expander (dep s)) k = Some v"])
     (simp_all add: getitem_cache_mono assms)

lemma bind_py_abspath_inv:
  assumes "\<And>a s. cache (expander (dep s)) k = Some v \<Longrightarrow> cache (expander (dep (snd (f a s)))) k = Some v"
    and "cache (expander (dep s)) k = Some v"
  shows "cache (expander (dep (snd (bind (py_abspath sys p) f s)))) k = Some v"
  by (rule bind_inv [where I = "\<lambda>s. cache (expander (dep s)) k = Some v"])
     (simp_all add: py_abspath_def assms split: pyval.splits)

lemma Dependency_fetch_cache_mono:
  assumes "cache (expander (dep r)) k = Some v"
  shows "cache (expander (dep (snd (Dependency_fetch sys r)))) k = Some v"
  unfolding Dependency_fetch_def
  by (intro bind_getitem_inv bind_py_abspath_inv)
     (simp_all add: assms Let_def log_write_def split: prod.splits sum.splits option.splits)

lemma Dependency_fetch_name_cached:
  assumes "Dependency_fetch sys r = (Return ok, r')"
  shows "\<exists>v. cache (expander (dep r')) ''name'' = Some v"
proof -
  from assms [unfolded Dependency_fetch_def]
  obtain remote_path r1 dest r2 local_path r3 strip_dirs r4 name r5 where
    "getitem ''name'' r4 = (Return name, r5)"
    and last: "(let r1 = log_write (Log_fetching name remote_path) r5
       in case open_remote sys remote_path (world r1) of
            (Inl e, w2) \<Rightarrow>
              if e = IOError then (Return False, log_write Log_FAILED (r1\<lparr>world := w2\<rparr>))
              else (Raise e, r1\<lparr>world := w2\<rparr>)
          | (Inr archive, w2) \<Rightarrow>
              (case sys_makedirs sys local_path w2 of
                 (oserror, w3) \<Rightarrow>
                   let r3 = log_write (Log_unpacking local_path) (r1\<lparr>world := w3\<rparr>)
                   in case extract_archive sys archive local_path strip_dirs (world r3) of
                        (Some e, w4) \<Rightarrow> (Raise e, r3\<lparr>world := w4\<rparr>)
                      | (None, w4) \<Rightarrow> (Return True, log_write Log_OK (r3\<lparr>world := w4\<rparr>))))
       = (Return ok, r')"
    by (elim bind_Return)
  from getitem_Return(1) [OF this(1)] have c: "cache (expander (dep r5)) ''name'' = Some name" .
  from last have "dep r' = dep r5"
    by (auto simp: Let_def log_write_def split: prod.splits sum.splits option.splits if_splits)
  with c show ?thesis by auto
qed

lemma git_checkout_tag_dep: "dep (snd (git_checkout_tag sys nm tag r)) = dep r"
  by (simp add: git_checkout_tag_def Let_def log_write_def split: prod.splits call_result.splits)

lemma Dependency_checkout_cache_mono:
  assumes "cache (expander (dep r)) k = Some v"
  shows "cache (expander (dep (snd (Dependency_checkout sys r)))) k = Some v"
  unfolding Dependency_checkout_def
  by (intro bind_getitem_inv)
     (auto intro!: bind_getitem_inv
        simp: assms log_write_def Let_def git_checkout_tag_dep
        split: option.splits prod.splits call_result.splits sum.splits)

lemma Dependency_checkout_name_cached:
  assumes "Dependency_checkout sys r = (Return ok, r')"
  shows "\<exists>v. cache (expander (dep r')) ''name'' = Some v"
proof -
  obtain res r1 where g: "getitem ''name'' r = (res, r1)" by (cases "getitem ''name'' r")
  with assms obtain name where res: "res = Return name"
    by (cases res) (simp_all add: Dependency_checkout_def bind_def)
  from getitem_Return(1) [OF g [unfolded res]]
  have c: "cache (expander (dep r1)) ''name'' = Some name" .
  then have "getitem ''name'' r1 = (Return name, r1)" by (rule getitem_cached)
  with g res have "Dependency_checkout sys r1 = Dependency_checkout sys r"
    by (simp add: Dependency_checkout_def bind_def)
  with Dependency_checkout_cache_mono [OF c, of sys] assms show ?thesis by simp
qed

subsection \<open>Method calls on the records of a collection\<close>

lemma dict_setitem_same: "dict_lookup k m = Some v \<Longrightarrow> dict_setitem k v m = m"
  by (induction m) (auto split: if_splits)

lemma dict_lookup_setitem_keeps:
  "dict_lookup k' m = Some d' \<Longrightarrow> (P d' \<Longrightarrow> P v) \<Longrightarrow> dict_lookup k m = Some d \<Longrightarrow> P d \<Longrightarrow>
     \<exists>d2. dict_lookup k (dict_setitem k' v m) = Some d2 \<and> P d2"
  by (induction m) (auto split: if_splits)

lemma dict_lookup_setitem_self:
  "dict_lookup k m = Some d \<Longrightarrow> dict_lookup k (dict_setitem k v m) = Some v"
  by (induction m) (auto split: if_splits)

lemma call_on_cases:
  obtains (missing) "dict_lookup k (dependencies (fst st)) = None"
      and "call_on method k st = (Raise (KeyError k), st)"
  | (found) d res r where "dict_lookup k (dependencies (fst st)) = Some d"
      and "method \<lparr>dep = d, logfile = fst (snd st), world = snd (snd st)\<rparr> = (res, r)"
      and "call_on method k st
             = (res, ((fst st)\<lparr>dependencies := dict_setitem k (dep r) (dependencies (fst st))\<rparr>,
                      logfile r, world r))"
proof (cases "dict_lookup k (dependencies (fst st))")
  case None
  then show ?thesis using missing by (cases st) (simp add: call_on_def)
next
  case (Some d)
  obtain res r where m: "method \<lparr>dep = d, logfile = fst (snd st), world = snd (snd st)\<rparr> = (res, r)"
    by (cases "method \<lparr>dep = d, logfile = fst (snd st), world = snd (snd st)\<rparr>")
  with Some show ?thesis using found [of d res r] by (cases st) (simp add: call_on_def)
qed

lemma call_on_name_cached:
  assumes P1: "\<And>r ok r'. m r = (Return ok, r') \<Longrightarrow> \<exists>v. cache (expander (dep r')) ''name'' = Some v"
    and c: "call_on m k st = (Return ok, st1)"
  shows "\<exists>nm. entry_name (fst st1) k = Some nm"
proof (cases rule: call_on_cases [of k st m])
  case missing
  with c show ?thesis by simp
next
  case (found d res r)
  with c have res: "res = Return ok"
    and st1: "st1 = ((fst st)\<lparr>dependencies := dict_setitem k (dep r) (dependencies (fst st))\<rparr>,
                      logfile r, world r)"
    by simp_all
  from P1 [OF found(2) [unfolded res]] obtain v where "cache (expander (dep r)) ''name'' = Some v"
    by blast
  with found(1) show ?thesis
    by (simp add: st1 entry_name_def dict_lookup_setitem_self)
qed

lemma call_on_getitem_name:
  assumes "entry_name (fst st) k = Some nm"
  shows "call_on (getitem ''name'') k st = (Return nm, st)"
proof -
  from assms obtain d where d: "dict_lookup k (dependencies (fst st)) = Some d"
    and c: "cache (expander d) ''name'' = Some nm"
    by (auto simp: entry_name_def split: option.splits)
  let ?r = "\<lparr>dep = d, logfile = fst (snd st), world = snd (snd st)\<rparr>"
  from c have "getitem ''name'' ?r = (Return nm, ?r)" by (intro getitem_cached) simp
  with d show ?thesis
    by (cases st) (simp add: call_on_def dict_setitem_same)
qed

lemma call_on_keeps_entry_name:
  assumes P2: "\<And>r v. cache (expander (dep r)) ''name'' = Some v \<Longrightarrow>
                 cache (expander (dep (snd (m r)))) ''name'' = Some v"
    and e: "entry_name (fst st) k = Some nm"
  shows "entry_name (fst (snd (call_on m k' st))) k = Some nm"
proof (cases rule: call_on_cases [of k' st m])
  case missing
  with e show ?thesis by simp
next
  case (found d' res r)
  from e obtain d where d: "dict_lookup k (dependencies (fst st)) = Some d"
    and c: "cache (expander d) ''name'' = Some nm"
    by (auto simp: entry_name_def split: option.splits)
  have keep: "cache (expander d') ''name'' = Some nm \<Longrightarrow> cache (expander (dep r)) ''name'' = Some nm"
    using P2 [of "\<lparr>dep = d', logfile = fst (snd st), world = snd (snd st)\<rparr>" nm] found(2) by simp
  from dict_lookup_setitem_keeps [of k' "dependencies (fst st)" d'
      "\<lambda>x. cache (expander x) ''name'' = Some nm" "dep r" k d, OF found(1) keep d c]
  show ?thesis by (auto simp: found(3) entry_name_def)
qed

lemma attempt_each_keeps_entry_name:
  assumes P2: "\<And>r v. cache (expander (dep r)) ''name'' = Some v \<Longrightarrow>
                 cache (expander (dep (snd (m r)))) ''name'' = Some v"
  shows "entry_name (fst st) k = Some nm \<Longrightarrow> entry_name (fst (snd (attempt_each m ks st))) k = Some nm"
proof (induction ks arbitrary: st)
  case Nil
  then show ?case by simp
next
  case (Cons k' ks)
  obtain res st1 where c: "call_on m k' st = (res, st1)" by (cases "call_on m k' st")
  obtain rs st2 where a: "attempt_each m ks st1 = (rs, st2)" by (cases "attempt_each m ks st1")
  have "entry_name (fst (snd (call_on m k' st))) k = Some nm"
    by (rule call_on_keeps_entry_name) (use P2 Cons.prems in auto)
  with c have "entry_name (fst st1) k = Some nm" by simp
  from Cons.IH [OF this] a c show ?case by simp
qed

lemma those_str_of: "those (map str_of vs) = Some ss \<Longrightarrow> vs = map VStr ss"
proof (induction vs arbitrary: ss)
  case Nil
  then show ?case by simp
next
  case (Cons v vs)
  then show ?case by (cases v) (auto split: option.splits)
qed

lemma private_filter_Some: "private_filter coll (Some ns) = Inr names \<Longrightarrow> names = ns"
  by (auto simp: private_filter_def Let_def split: if_splits option.splits)

lemma no_failures_iff:
  "length ks = length oks \<Longrightarrow>
     (filter (\<lambda>(k, ok). \<not> ok) (zip ks oks) = []) = (\<forall>ok\<in>set oks. ok)"
  by (induction ks oks rule: list_induct2) auto

subsection \<open>The batch calls return or raise\<close>

lemma bind_not_NoFuel:
  assumes "\<And>s. fst (m s) \<noteq> NoFuel" and "\<And>a s. fst (f a s) \<noteq> NoFuel"
  shows "fst (bind m f s) \<noteq> NoFuel"
proof -
  obtain res s1 where m: "m s = (res, s1)" by (cases "m s")
  with assms(1) [of s] have "res \<noteq> NoFuel" by simp
  with m assms(2) show ?thesis by (cases res) (simp_all add: bind_def)
qed

lemma getitem_not_NoFuel: "fst (getitem key r) \<noteq> NoFuel"
  using resolve_returns_or_raises [of key "expander (dep r)"]
  by (cases "resolve key (expander (dep r))") (simp add: getitem_def)

lemma git_checkout_tag_not_NoFuel: "fst (git_checkout_tag sys nm tag r) \<noteq> NoFuel"
  by (simp add: git_checkout_tag_def Let_def split: prod.splits call_result.splits)

lemma Dependency_fetch_not_NoFuel: "fst (Dependency_fetch sys r) \<noteq> NoFuel"
  unfolding Dependency_fetch_def
  by (intro bind_not_NoFuel getitem_not_NoFuel)
     (simp_all add: py_abspath_def Let_def split: pyval.splits prod.splits sum.splits option.splits)

lemma Dependency_checkout_not_NoFuel: "fst (Dependency_checkout sys r) \<noteq> NoFuel"
  unfolding Dependency_checkout_def
  apply (intro bind_not_NoFuel getitem_not_NoFuel)
  apply (simp split: option.splits)
  apply (intro conjI impI allI bind_not_NoFuel getitem_not_NoFuel)
  apply (simp_all add: Let_def git_checkout_tag_not_NoFuel
      split: prod.splits call_result.splits sum.splits)
  done

lemma call_on_not_NoFuel:
  assumes "\<And>r. fst (m r) \<noteq> NoFuel"
  shows "fst (call_on m k st) \<noteq> NoFuel"
proof (cases rule: call_on_cases [of k st m])
  case missing
  then show ?thesis by simp
next
  case (found d res r)
  with assms [of "\<lparr>dep = d, logfile = fst (snd st), world = snd (snd st)\<rparr>"] show ?thesis by simp
qed

lemma for_each_dependency_not_NoFuel:
  assumes "\<And>r. fst (m r) \<noteq> NoFuel"
  shows "fst (for_each_dependency m ks failed st) \<noteq> NoFuel"
proof (induction ks arbitrary: failed st)
  case Nil
  show ?case by simp
next
  case (Cons k ks)
  obtain res st1 where c: "call_on m k st = (res, st1)" by (cases "call_on m k st")
  with call_on_not_NoFuel [of m k st] assms have r: "res \<noteq> NoFuel" by simp
  obtain res2 st2 where g: "call_on (getitem ''name'') k st1 = (res2, st2)"
    by (cases "call_on (getitem ''name'') k st1")
  with call_on_not_NoFuel [of "getitem ''name''" k st1, OF getitem_not_NoFuel]
  have r2: "res2 \<noteq> NoFuel" by simp
  from c r g r2 Cons.IH show ?case
    by (cases res; cases res2) simp_all
qed

lemma batch_not_NoFuel:
  assumes "\<And>r. fst (m r) \<noteq> NoFuel"
  shows "fst (batch m message selected st) \<noteq> NoFuel"
proof (cases "private_filter (fst st) selected")
  case (Inl e)
  then show ?thesis by (simp add: batch_def)
next
  case (Inr names)
  obtain res coll lg w where fe: "for_each_dependency m names [] st = (res, (coll, lg, w))"
    by (metis prod.collapse)
  with for_each_dependency_not_NoFuel [of m names "[]" st] assms have "res \<noteq> NoFuel" by simp
  with Inr fe show ?thesis
    by (cases res) (simp_all add: batch_def split: option.splits)
qed


subsection \<open>The loop over the selected entries\<close>

lemma attempt_each_length: "length (fst (attempt_each m ks st)) = length ks"
proof (induction ks arbitrary: st)
  case Nil
  show ?case by simp
next
  case (Cons k ks)
  obtain res st1 where c: "call_on m k st = (res, st1)" by (cases "call_on m k st")
  obtain rs st2 where a: "attempt_each m ks st1 = (rs, st2)" by (cases "attempt_each m ks st1")
  from Cons.IH [of st1] a have "length rs = length ks" by simp
  with c a show ?case by simp
qed

lemma those_map_str_of_VStr: "those (map str_of (map VStr ss)) = Some ss"
  by (induction ss) simp_all

lemma for_each_dependency_returns:
  assumes P1: "\<And>r ok r'. m r = (Return ok, r') \<Longrightarrow> \<exists>v. cache (expander (dep r')) ''name'' = Some v"
    and P2: "\<And>r v. cache (expander (dep r)) ''name'' = Some v \<Longrightarrow>
                 cache (expander (dep (snd (m r)))) ''name'' = Some v"
  shows "attempt_each m ks st = (map Return oks, st') \<Longrightarrow>
         \<exists>new. for_each_dependency m ks failed st = (Return (failed @ new), st')
              \<and> map Some new
                  = map (entry_name (fst st')) (map fst (filter (\<lambda>(k, ok). \<not> ok) (zip ks oks)))"
proof (induction ks arbitrary: oks failed st)
  case Nil
  then show ?case by simp
next
  case (Cons k ks)
  obtain res st1 where c: "call_on m k st = (res, st1)" by (cases "call_on m k st")
  obtain rs st2 where a: "attempt_each m ks st1 = (rs, st2)" by (cases "attempt_each m ks st1")
  from Cons.prems c a have e: "res # rs = map Return oks" "st2 = st'" by simp_all
  then obtain ok oks' where oks: "oks = ok # oks'" "res = Return ok" "rs = map Return oks'"
    by (cases oks) auto
  from a e oks have a': "attempt_each m ks st1 = (map Return oks', st')" by simp
  show ?case
  proof (cases ok)
    case True
    from Cons.IH [OF a', of failed] obtain new where
      "for_each_dependency m ks failed st1 = (Return (failed @ new), st')"
      "map Some new = map (entry_name (fst st')) (map fst (filter (\<lambda>(k, ok). \<not> ok) (zip ks oks')))"
      by blast
    with c oks True show ?thesis by (intro exI [of _ new]) simp
  next
    case False
    have "\<exists>nm. entry_name (fst st1) k = Some nm"
      by (rule call_on_name_cached [where m = m and st = st and ok = ok])
         (use P1 c oks in auto)
    then obtain nm where nm: "entry_name (fst st1) k = Some nm" by blast
    then have g: "call_on (getitem ''name'') k st1 = (Return nm, st1)"
      by (rule call_on_getitem_name)
    from Cons.IH [OF a', of "failed @ [nm]"] obtain new where
      n: "for_each_dependency m ks (failed @ [nm]) st1 = (Return ((failed @ [nm]) @ new), st')"
        "map Some new = map (entry_name (fst st')) (map fst (filter (\<lambda>(k, ok). \<not> ok) (zip ks oks')))"
      by blast
    have "entry_name (fst (snd (attempt_each m ks st1))) k = Some nm"
      by (rule attempt_each_keeps_entry_name) (use P2 nm in auto)
    with a' have "entry_name (fst st') k = Some nm" by simp
    with c oks False g n show ?thesis by (intro exI [of _ "nm # new"]) simp
  qed
qed

lemma for_each_dependency_raises:
  assumes P1: "\<And>r ok r'. m r = (Return ok, r') \<Longrightarrow> \<exists>v. cache (expander (dep r')) ''name'' = Some v"
  shows "attempt_each m ks st = (map Return oks @ Raise e # rest, st2) \<Longrightarrow>
         for_each_dependency m ks failed st
           = (Raise e, snd (attempt_each m (take (Suc (length oks)) ks) st))"
proof (induction ks arbitrary: oks failed st st2)
  case Nil
  then show ?case by simp
next
  case (Cons k ks)
  obtain res st1 where c: "call_on m k st = (res, st1)" by (cases "call_on m k st")
  obtain rs st3 where a: "attempt_each m ks st1 = (rs, st3)" by (cases "attempt_each m ks st1")
  from Cons.prems c a have e: "res # rs = map Return oks @ Raise e # rest" by simp
  show ?case
  proof (cases oks)
    case Nil
    with e have "res = Raise e" by simp
    with c Nil show ?thesis by simp
  next
    case (Cons ok oks')
    with e have r: "res = Return ok" "rs = map Return oks' @ Raise e # rest" by simp_all
    from a r have a': "attempt_each m ks st1 = (map Return oks' @ Raise e # rest, st3)" by simp
    note IH = Cons.IH [OF a']
    show ?thesis
    proof (cases ok)
      case True
      with c r Cons IH [of failed] show ?thesis by (simp add: case_prod_beta)
    next
      case False
      have "\<exists>nm. entry_name (fst st1) k = Some nm"
        by (rule call_on_name_cached [where m = m and st = st and ok = ok])
           (use P1 c r in auto)
      then obtain nm where "entry_name (fst st1) k = Some nm" by blast
      then have "call_on (getitem ''name'') k st1 = (Return nm, st1)"
        by (rule call_on_getitem_name)
      with c r Cons False IH [of "failed @ [nm]"] show ?thesis by (simp add: case_prod_beta)
    qed
  qed
qed

lemma batch_outcomes:
  assumes P1: "\<And>r ok r'. m r = (Return ok, r') \<Longrightarrow> \<exists>v. cache (expander (dep r')) ''name'' = Some v"
    and P2: "\<And>r v. cache (expander (dep r)) ''name'' = Some v \<Longrightarrow>
                 cache (expander (dep (snd (m r)))) ''name'' = Some v"
    and pf: "private_filter (fst st) selected = Inr names"
  shows "(\<forall>oks st1. attempt_each m names st = (map Return oks, st1) \<longrightarrow>
            ((\<forall>ok\<in>set oks. ok) \<longrightarrow> batch m message selected st = (Return True, st1))
          \<and> (\<not> (\<forall>ok\<in>set oks. ok) \<longrightarrow>
               (\<forall>failed.
                  map (entry_name (fst st1)) (map fst (filter (\<lambda>(k, ok). \<not> ok) (zip names oks)))
                    = map (Some \<circ> VStr) failed \<longrightarrow>
                  batch m message selected st
                    = (Return False, (fst st1, fst (snd st1) @ [message failed], snd (snd st1))))
             \<and> ((\<nexists>failed.
                    map (entry_name (fst st1)) (map fst (filter (\<lambda>(k, ok). \<not> ok) (zip names oks)))
                      = map (Some \<circ> VStr) failed) \<longrightarrow>
                  batch m message selected st = (Raise TypeError, st1))))
       \<and> (\<forall>oks e rest st2. attempt_each m names st = (map Return oks @ Raise e # rest, st2) \<longrightarrow>
            batch m message selected st
              = (Raise e, snd (attempt_each m (take (Suc (length oks)) names) st)))"
proof (intro conjI allI impI)
  fix oks st1
  assume a: "attempt_each m names st = (map Return oks, st1)"
  let ?F = "map fst (filter (\<lambda>(k, ok). \<not> ok) (zip names oks))"
  have "\<exists>new. for_each_dependency m names [] st = (Return ([] @ new), st1)
              \<and> map Some new = map (entry_name (fst st1)) ?F"
    by (rule for_each_dependency_returns [where m = m]) (use P1 P2 a in auto)
  then obtain new where fe: "for_each_dependency m names [] st = (Return new, st1)"
    and n: "map Some new = map (entry_name (fst st1)) ?F"
    by auto
  from attempt_each_length [of m names st] a have l: "length names = length oks" by simp
  from n have "(new = []) = (filter (\<lambda>(k, ok). \<not> ok) (zip names oks) = [])"
    by (metis map_is_Nil_conv)
  with no_failures_iff [OF l] have all: "(new = []) = (\<forall>ok\<in>set oks. ok)" by simp
  obtain coll lg w where st1: "st1 = (coll, lg, w)" by (cases st1)
  show "batch m message selected st = (Return True, st1)" if "\<forall>ok\<in>set oks. ok"
  proof -
    from that all have "new = []" by simp
    with pf fe show ?thesis by (simp add: batch_def st1)
  qed
  show "batch m message selected st
          = (Return False, (fst st1, fst (snd st1) @ [message failed], snd (snd st1)))"
    if "\<not> (\<forall>ok\<in>set oks. ok)" "map (entry_name (fst st1)) ?F = map (Some \<circ> VStr) failed"
    for failed
  proof -
    from n that(2) have "map Some new = map Some (map VStr failed)" by simp
    then have new: "new = map VStr failed" by (simp only: inj_map_eq_map [OF inj_Some])
    have strs: "those (map str_of new) = Some failed"
      unfolding new by (rule those_map_str_of_VStr)
    from that(1) all have "new \<noteq> []" by simp
    with strs pf fe show ?thesis by (simp add: batch_def st1)
  qed
  show "batch m message selected st = (Raise TypeError, st1)"
    if "\<not> (\<forall>ok\<in>set oks. ok)"
      "\<nexists>failed. map (entry_name (fst st1)) ?F = map (Some \<circ> VStr) failed"
  proof -
    have none: "those (map str_of new) = None"
    proof (cases "those (map str_of new)")
      case None
      then show ?thesis .
    next
      case (Some ss)
      from those_str_of [OF Some] n have "map (entry_name (fst st1)) ?F = map (Some \<circ> VStr) ss"
        by simp
      with that(2) show ?thesis by blast
    qed
    from that(1) all have "new \<noteq> []" by simp
    with none pf fe show ?thesis by (simp add: batch_def st1)
  qed
next
  fix oks e rest st2
  assume a: "attempt_each m names st = (map Return oks @ Raise e # rest, st2)"
  have "for_each_dependency m names [] st
          = (Raise e, snd (attempt_each m (take (Suc (length oks)) names) st))"
    by (rule for_each_dependency_raises [where m = m and rest = rest and ?st2.0 = st2])
       (use P1 a in auto)
  with pf show "batch m message selected st
          = (Raise e, snd (attempt_each m (take (Suc (length oks)) names) st))"
    by (simp add: batch_def)
qed

text \<open>
  Claim C2, as amended. Take the batch \<^verbatim>\<open>fetch\<close> or the batch
  \<^verbatim>\<open>checkout\<close>, with the method of a record and the message that go with it, and
  let \<open>names\<close> be the selected entries (with a list of names, those names). The
  specification's batch, \<open>attempt_each\<close>, calls the method of every selected entry,
  one after the other, whatever the earlier calls gave.
  \<^item> When every one of these calls returns a boolean, the batch call of the code does
    exactly these calls and leaves their state, and it returns true when all the booleans
    are true; when one is false it writes one more line to the log, the report with the
    resolved names of exactly the entries whose call returned false, in order, and
    returns false (the report joins the names as strings: when a failing entry's name is
    not a string the batch raises \<^verbatim>\<open>TypeError\<close> instead).
  \<^item> When the call of some entry raises, the batch call of the code raises the same
    exception, and the state it leaves is the state after the calls up to that entry: the
    entries after it are not attempted and no report is written.
  \<^item> The batch call always returns or raises.
\<close>

theorem batch_stops_at_first_exception:
  assumes "(collection_method, method, message)
             \<in> {(DependencyCollection_fetch sys, Dependency_fetch sys, Log_failed_to_fetch),
                (DependencyCollection_checkout sys, Dependency_checkout sys,
                 Log_failed_to_check_out)}"
    and "private_filter (fst st) selected = Inr names"
  shows "(\<forall>oks st1. attempt_each method names st = (map Return oks, st1) \<longrightarrow>
            ((\<forall>ok\<in>set oks. ok) \<longrightarrow> collection_method selected st = (Return True, st1))
          \<and> (\<not> (\<forall>ok\<in>set oks. ok) \<longrightarrow>
               (\<forall>failed.
                  map (entry_name (fst st1)) (map fst (filter (\<lambda>(k, ok). \<not> ok) (zip names oks)))
                    = map (Some \<circ> VStr) failed \<longrightarrow>
                  collection_method selected st
                    = (Return False, (fst st1, fst (snd st1) @ [message failed], snd (snd st1))))
             \<and> ((\<nexists>failed.
                    map (entry_name (fst st1)) (map fst (filter (\<lambda>(k, ok). \<not> ok) (zip names oks)))
                      = map (Some \<circ> VStr) failed) \<longrightarrow>
                  collection_method selected st = (Raise TypeError, st1))))
       \<and> (\<forall>oks e rest st2.
            attempt_each method names st = (map Return oks @ Raise e # rest, st2) \<longrightarrow>
            collection_method selected st
              = (Raise e, snd (attempt_each method (take (Suc (length oks)) names) st)))
       \<and> (\<forall>ns. selected = Some ns \<longrightarrow> names = ns)
       \<and> fst (collection_method selected st) \<noteq> NoFuel"
proof -
  have sel: "\<forall>ns. selected = Some ns \<longrightarrow> names = ns"
    using assms(2) private_filter_Some by blast
  from assms(1) consider
    (fetch) "collection_method = DependencyCollection_fetch sys" "method = Dependency_fetch sys"
      "message = Log_failed_to_fetch"
  | (checkout) "collection_method = DependencyCollection_checkout sys"
      "method = Dependency_checkout sys" "message = Log_failed_to_check_out"
    by auto
  then show ?thesis
  proof cases
    case fetch
    have nf: "fst (batch (Dependency_fetch sys) Log_failed_to_fetch selected st) \<noteq> NoFuel"
      by (rule batch_not_NoFuel) (rule Dependency_fetch_not_NoFuel)
    note B = batch_outcomes [where m = "Dependency_fetch sys" and message = Log_failed_to_fetch,
        OF _ _ assms(2)]
    show ?thesis
      unfolding fetch DependencyCollection_fetch_def
      apply (intro conjI)
         apply (rule B [THEN conjunct1])
          apply (erule Dependency_fetch_name_cached)
         apply (erule Dependency_fetch_cache_mono)
        apply (rule B [THEN conjunct2])
         apply (erule Dependency_fetch_name_cached)
        apply (erule Dependency_fetch_cache_mono)
       apply (rule sel)
      apply (rule nf)
      done
  next
    case checkout
    have nf: "fst (batch (Dependency_checkout sys) Log_failed_to_check_out selected st) \<noteq> NoFuel"
      by (rule batch_not_NoFuel) (rule Dependency_checkout_not_NoFuel)
    note B = batch_outcomes [where m = "Dependency_checkout sys"
        and message = Log_failed_to_check_out, OF _ _ assms(2)]
    show ?thesis
      unfolding checkout DependencyCollection_checkout_def
      apply (intro conjI)
         apply (rule B [THEN conjunct1])
          apply (erule Dependency_checkout_name_cached)
         apply (erule Dependency_checkout_cache_mono)
        apply (rule B [THEN conjunct2])
         apply (erule Dependency_checkout_name_cached)
        apply (erule Dependency_checkout_cache_mono)
       apply (rule sel)
      apply (rule nf)
      done
  qed
qed

text \<open>
  Five runs on the example collections: \<^verbatim>\<open>fetch(["A", "B"])\<close> where the archive of
  \<^verbatim>\<open>A\<close> cannot be opened (the example of the specification: \<^verbatim>\<open>B\<close> is
  attempted and \<^verbatim>\<open>A\<close> is reported); \<^verbatim>\<open>fetch(["B"])\<close> in the same world;
  \<^verbatim>\<open>checkout()\<close> where \<^verbatim>\<open>A\<close> has no repository; \<^verbatim>\<open>fetch(["A", "B"])\<close>
  where nothing can be extracted; and \<^verbatim>\<open>checkout()\<close> of the record whose name is a
  number.
\<close>

theorem batch_stops_at_first_exception_witness:
  "(\<exists>st1.
      attempt_each (Dependency_fetch example_sys_a_missing) [VStr ''A'', VStr ''B'']
          (example_collection, [], ())
        = (map Return [False, True], st1)
    \<and> DependencyCollection_fetch example_sys_a_missing (Some [VStr ''A'', VStr ''B''])
          (example_collection, [], ())
        = (Return False, (fst st1, fst (snd st1) @ [Log_failed_to_fetch [''A'']], snd (snd st1))))
   \<and> (\<exists>st1.
      attempt_each (Dependency_fetch example_sys_a_missing) [VStr ''B''] (example_collection, [], ())
        = (map Return [True], st1)
    \<and> DependencyCollection_fetch example_sys_a_missing (Some [VStr ''B''])
          (example_collection, [], ())
        = (Return True, st1))
   \<and> (\<exists>st1.
      attempt_each (Dependency_checkout example_sys) [VStr ''A'', VStr ''B'']
          (example_collection, [], ())
        = (map Return [False, True], st1)
    \<and> DependencyCollection_checkout example_sys None (example_collection, [], ())
        = (Return False,
           (fst st1, fst (snd st1) @ [Log_failed_to_check_out [''A'']], snd (snd st1))))
   \<and> (\<exists>st2.
      attempt_each (Dependency_fetch example_sys_disk_full) [VStr ''A'', VStr ''B'']
          (example_collection, [], ())
        = (map Return [] @ Raise IOError # [Raise IOError], st2)
    \<and> DependencyCollection_fetch example_sys_disk_full (Some [VStr ''A'', VStr ''B''])
          (example_collection, [], ())
        = (Raise IOError,
           snd (attempt_each (Dependency_fetch example_sys_disk_full) [VStr ''A'']
                  (example_collection, [], ()))))
   \<and> (\<exists>st1.
      attempt_each (Dependency_checkout example_sys) [VNum 7] (example_collection_numbered, [], ())
        = (map Return [False], st1)
    \<and> entry_name (fst st1) (VNum 7) = Some (VNum 7)
    \<and> DependencyCollection_checkout example_sys None (example_collection_numbered, [], ())
        = (Raise TypeError, st1))"
proof (intro conjI)
  let ?st = "(example_collection, [], ())"
  let ?sys = example_sys_a_missing
  let ?names = "[VStr ''A'', VStr ''B'']"
  let ?a = "attempt_each (Dependency_fetch ?sys) ?names ?st"
  have op: "(DependencyCollection_fetch ?sys, Dependency_fetch ?sys, Log_failed_to_fetch)
              \<in> {(DependencyCollection_fetch ?sys, Dependency_fetch ?sys, Log_failed_to_fetch),
                 (DependencyCollection_checkout ?sys, Dependency_checkout ?sys,
                  Log_failed_to_check_out)}"
    by simp
  have pf: "private_filter (fst ?st) (Some ?names) = Inr ?names" by code_simp
  have "fst ?a = map Return [False, True]" by code_simp
  then have a: "?a = (map Return [False, True], snd ?a)" by (metis prod.collapse)
  have some: "\<not> (\<forall>ok\<in>set [False, True]. ok)" by simp
  have nm: "entry_name (fst (snd ?a)) (VStr ''A'') = Some (VStr ''A'')" by code_simp
  have failed: "map (entry_name (fst (snd ?a)))
                  (map fst (filter (\<lambda>(k, ok). \<not> ok) (zip ?names [False, True])))
                = map (Some \<circ> VStr) [''A'']"
    using nm by simp
  note T = batch_stops_at_first_exception [OF op pf, THEN conjunct1, rule_format, OF a,
      THEN conjunct2, rule_format, OF some, THEN conjunct1, rule_format, OF failed]
  from a T show "\<exists>st1. ?a = (map Return [False, True], st1)
    \<and> DependencyCollection_fetch ?sys (Some ?names) ?st
        = (Return False, (fst st1, fst (snd st1) @ [Log_failed_to_fetch [''A'']], snd (snd st1)))"
    by (intro exI [of _ "snd ?a"]) simp
next
  let ?st = "(example_collection, [], ())"
  let ?sys = example_sys_a_missing
  let ?names = "[VStr ''B'']"
  let ?a = "attempt_each (Dependency_fetch ?sys) ?names ?st"
  have op: "(DependencyCollection_fetch ?sys, Dependency_fetch ?sys, Log_failed_to_fetch)
              \<in> {(DependencyCollection_fetch ?sys, Dependency_fetch ?sys, Log_failed_to_fetch),
                 (DependencyCollection_checkout ?sys, Dependency_checkout ?sys,
                  Log_failed_to_check_out)}"
    by simp
  have pf: "private_filter (fst ?st) (Some ?names) = Inr ?names" by code_simp
  have "fst ?a = map Return [True]" by code_simp
  then have a: "?a = (map Return [True], snd ?a)" by (metis prod.collapse)
  have all: "\<And>ok. ok \<in> set [True] \<Longrightarrow> ok" by simp
  note T = batch_stops_at_first_exception [OF op pf, THEN conjunct1, rule_format, OF a,
      THEN conjunct1, rule_format, OF all]
  from a T show "\<exists>st1. ?a = (map Return [True], st1)
    \<and> DependencyCollection_fetch ?sys (Some ?names) ?st = (Return True, st1)"
    by (intro exI [of _ "snd ?a"]) simp
next
  let ?st = "(example_collection, [], ())"
  let ?sys = example_sys
  let ?names = "[VStr ''A'', VStr ''B'']"
  let ?a = "attempt_each (Dependency_checkout ?sys) ?names ?st"
  have op: "(DependencyCollection_checkout ?sys, Dependency_checkout ?sys, Log_failed_to_check_out)
              \<in> {(DependencyCollection_fetch ?sys, Dependency_fetch ?sys, Log_failed_to_fetch),
                 (DependencyCollection_checkout ?sys, Dependency_checkout ?sys,
                  Log_failed_to_check_out)}"
    by simp
  have pf: "private_filter (fst ?st) None = Inr ?names" by code_simp
  have "fst ?a = map Return [False, True]" by code_simp
  then have a: "?a = (map Return [False, True], snd ?a)" by (metis prod.collapse)
  have some: "\<not> (\<forall>ok\<in>set [False, True]. ok)" by simp
  have nm: "entry_name (fst (snd ?a)) (VStr ''A'') = Some (VStr ''A'')" by code_simp
  have failed: "map (entry_name (fst (snd ?a)))
                  (map fst (filter (\<lambda>(k, ok). \<not> ok) (zip ?names [False, True])))
                = map (Some \<circ> VStr) [''A'']"
    using nm by simp
  note T = batch_stops_at_first_exception [OF op pf, THEN conjunct1, rule_format, OF a,
      THEN conjunct2, rule_format, OF some, THEN conjunct1, rule_format, OF failed]
  from a T show "\<exists>st1. ?a = (map Return [False, True], st1)
    \<and> DependencyCollection_checkout ?sys None ?st
        = (Return False,
           (fst st1, fst (snd st1) @ [Log_failed_to_check_out [''A'']], snd (snd st1)))"
    by (intro exI [of _ "snd ?a"]) simp
next
  let ?st = "(example_collection, [], ())"
  let ?sys = example_sys_disk_full
  let ?names = "[VStr ''A'', VStr ''B'']"
  let ?a = "attempt_each (Dependency_fetch ?sys) ?names ?st"
  have op: "(DependencyCollection_fetch ?sys, Dependency_fetch ?sys, Log_failed_to_fetch)
              \<in> {(DependencyCollection_fetch ?sys, Dependency_fetch ?sys, Log_failed_to_fetch),
                 (DependencyCollection_checkout ?sys, Dependency_checkout ?sys,
                  Log_failed_to_check_out)}"
    by simp
  have pf: "private_filter (fst ?st) (Some ?names) = Inr ?names" by code_simp
  have "fst ?a = map Return [] @ Raise IOError # [Raise IOError]" by code_simp
  then have a: "?a = (map Return [] @ Raise IOError # [Raise IOError], snd ?a)"
    by (metis prod.collapse)
  note T = batch_stops_at_first_exception [OF op pf, THEN conjunct2, THEN conjunct1, rule_format,
      OF a]
  from a T show "\<exists>st2. ?a = (map Return [] @ Raise IOError # [Raise IOError], st2)
    \<and> DependencyCollection_fetch ?sys (Some ?names) ?st
        = (Raise IOError, snd (attempt_each (Dependency_fetch ?sys) [VStr ''A''] ?st))"
    by (intro exI [of _ "snd ?a"]) simp
next
  let ?st = "(example_collection_numbered, [], ())"
  let ?sys = example_sys
  let ?names = "[VNum 7]"
  let ?a = "attempt_each (Dependency_checkout ?sys) ?names ?st"
  have op: "(DependencyCollection_checkout ?sys, Dependency_checkout ?sys, Log_failed_to_check_out)
              \<in> {(DependencyCollection_fetch ?sys, Dependency_fetch ?sys, Log_failed_to_fetch),
                 (DependencyCollection_checkout ?sys, Dependency_checkout ?sys,
                  Log_failed_to_check_out)}"
    by simp
  have pf: "private_filter (fst ?st) None = Inr ?names" by code_simp
  have "fst ?a = map Return [False]" by code_simp
  then have a: "?a = (map Return [False], snd ?a)" by (metis prod.collapse)
  have some: "\<not> (\<forall>ok\<in>set [False]. ok)" by simp
  have nm: "entry_name (fst (snd ?a)) (VNum 7) = Some (VNum 7)" by code_simp
  have none: "\<nexists>failed. map (entry_name (fst (snd ?a)))
                  (map fst (filter (\<lambda>(k, ok). \<not> ok) (zip ?names [False])))
                = map (Some \<circ> VStr) failed"
    using nm by auto
  note T = batch_stops_at_first_exception [OF op pf, THEN conjunct1, rule_format, OF a,
      THEN conjunct2, rule_format, OF some, THEN conjunct2, rule_format, OF none]
  from a nm T show "\<exists>st1. ?a = (map Return [False], st1)
    \<and> entry_name (fst st1) (VNum 7) = Some (VNum 7)
    \<and> DependencyCollection_checkout ?sys None ?st = (Raise TypeError, st1)"
    by (intro exI [of _ "snd ?a"]) simp
qed

text \<open>
  The claim as stated asks that every selected entry is attempted whatever happens to the
  others. In the world where nothing can be extracted, \<^verbatim>\<open>fetch(["A", "B"])\<close> raises
  the \<^verbatim>\<open>IOError\<close> of \<^verbatim>\<open>A\<close>: the log ends with the unpacking of \<^verbatim>\<open>A\<close>,
  \<^verbatim>\<open>B\<close> is never fetched and no report is written, while attempting every entry
  would have reached \<^verbatim>\<open>B\<close>.
\<close>

theorem batch_aborts_when_an_entry_raises:
  "fst (DependencyCollection_fetch example_sys_disk_full (Some [VStr ''A'', VStr ''B''])
          (example_collection, [], ()))
     = Raise IOError
   \<and> fst (snd (snd (DependencyCollection_fetch example_sys_disk_full
                       (Some [VStr ''A'', VStr ''B'']) (example_collection, [], ()))))
     = [Log_fetching (VStr ''A'') (VStr ''/srv/a.tar.gz''),
        Log_unpacking ''/work/dependencies/AnyPlatform/'']
   \<and> Log_fetching (VStr ''B'') (VStr ''/srv/b.tar.gz'')
       \<in> set (fst (snd (snd (attempt_each (Dependency_fetch example_sys_disk_full)
                               [VStr ''A'', VStr ''B''] (example_collection, [], ())))))"
  by code_simp

end
